theory Spec2Isabelle
  imports Main
begin

section \<open>The numpy and pandas operations that dataset.py calls\<close>

text \<open>
  Raw column values and indices are integers (\<open>np.int\<close> arrays in the source); a one
  dimensional array is a list, a two dimensional array a list of rows.

  \<open>np.unique\<close> returns the sorted distinct elements of its argument.
\<close>

definition np_unique :: "int list \<Rightarrow> int list" where
  "np_unique xs = sort (remdups xs)"

text \<open>
  \<open>np.searchsorted(a, v)\<close> with the default \<open>side='left'\<close>. numpy's loop over the keys
  \<open>v\<close> keeps the bounds of one binary search for the next:
  \<^verbatim>\<open>
  min_idx = 0; max_idx = arr_len; last_key_val = key[0];
  for each key_val in key:
      if (last_key_val < key_val) { max_idx = arr_len; }
      else { min_idx = 0;
             max_idx = (max_idx < arr_len) ? (max_idx + 1) : arr_len; }
      last_key_val = key_val;
      while (min_idx < max_idx) {
          mid_idx = min_idx + ((max_idx - min_idx) >> 1);
          if (arr[mid_idx] < key_val) min_idx = mid_idx + 1;
          else max_idx = mid_idx; }
      ret = min_idx;
  \<close>
  It runs the same loop whether or not \<open>a\<close> is sorted. \<open>binsearch_loop\<close> is the
  \<open>while\<close> loop and returns both bounds, \<open>searchsorted_loop\<close> the loop over the keys.
\<close>

function binsearch_loop :: "int list \<Rightarrow> int \<Rightarrow> nat \<Rightarrow> nat \<Rightarrow> nat \<times> nat" where
  "binsearch_loop a v lo hi =
     (if lo < hi
      then (if a ! (lo + (hi - lo) div 2) < v
            then binsearch_loop a v (lo + (hi - lo) div 2 + 1) hi
            else binsearch_loop a v lo (lo + (hi - lo) div 2))
      else (lo, hi))"
  by pat_completeness auto
termination
  by (relation "measure (\<lambda>(a, v, lo, hi). hi - lo)") auto

declare binsearch_loop.simps [simp del]

fun searchsorted_loop :: "int list \<Rightarrow> nat \<Rightarrow> nat \<Rightarrow> int \<Rightarrow> int list \<Rightarrow> int list" where
  "searchsorted_loop a min_idx max_idx last_key_val [] = []"
| "searchsorted_loop a min_idx max_idx last_key_val (key_val # keys) =
     (case binsearch_loop a key_val
             (if last_key_val < key_val then min_idx else 0)
             (if last_key_val < key_val then length a
              else if max_idx < length a then max_idx + 1 else length a) of
        (min_idx1, max_idx1) \<Rightarrow>
          int min_idx1 # searchsorted_loop a min_idx1 max_idx1 key_val keys)"

definition searchsorted :: "int list \<Rightarrow> int list \<Rightarrow> int list" where
  "searchsorted a vs =
     (case vs of
        [] \<Rightarrow> []
      | key_val # keys \<Rightarrow> searchsorted_loop a 0 (length a) key_val vs)"

text \<open>
  One binary search over the whole array, with nothing carried over: the result of
  \<open>np.searchsorted\<close> for a single key, and on a sorted array for every key.
\<close>

definition bsearch :: "int list \<Rightarrow> int \<Rightarrow> nat \<Rightarrow> nat \<Rightarrow> nat" where
  "bsearch a v lo hi = fst (binsearch_loop a v lo hi)"

definition searchsorted1 :: "int list \<Rightarrow> int \<Rightarrow> int" where
  "searchsorted1 a v = int (bsearch a v 0 (length a))"

text \<open>
  \<open>np.in1d(values, uniques, invert=True)\<close>: one boolean per element of \<open>values\<close>, true
  where the element does not occur in \<open>uniques\<close>.
\<close>

definition in1d_invert :: "int list \<Rightarrow> int list \<Rightarrow> bool list" where
  "in1d_invert vs us = map (\<lambda>v. v \<notin> set us) vs"

text \<open>
  \<open>np.setdiff1d(values, uniques, assume_unique=True)\<close> is
  \<open>values[in1d(values, uniques, assume_unique=True, invert=True)]\<close>. With
  \<open>assume_unique=True\<close>, \<open>in1d\<close> has two paths. When
  \<open>len(uniques) < 10 * len(values) ** 0.145\<close> it compares \<open>values\<close> with every element
  of \<open>uniques\<close>, which is exact. Otherwise it sorts the concatenation of both arrays by
  a stable sort and marks an element of \<open>values\<close> exactly when its successor in the
  sorted array differs from it: an element that is repeated later in \<open>values\<close> is not
  marked, so of a repeated absent value only the last occurrence is selected. The
  bound is compared in exact arithmetic: \<open>m < 10 * n ** 0.145\<close> is
  \<open>m ^ 200 < 10 ^ 200 * n ^ 29\<close>. \<open>_sparse_indices\<close> drops this value, and no statement
  below depends on it.
\<close>

definition in1d_loop_path :: "nat \<Rightarrow> nat \<Rightarrow> bool" where
  "in1d_loop_path n m = (int m ^ 200 < 10 ^ 200 * int n ^ 29)"

fun in1d_sort_path_invert :: "int list \<Rightarrow> int list \<Rightarrow> bool list" where
  "in1d_sort_path_invert [] us = []"
| "in1d_sort_path_invert (v # vs) us =
     (v \<notin> set vs \<and> v \<notin> set us) # in1d_sort_path_invert vs us"

definition setdiff1d :: "int list \<Rightarrow> int list \<Rightarrow> int list" where
  "setdiff1d vs us =
     map fst (filter snd (zip vs
       (if in1d_loop_path (length vs) (length us) then in1d_invert vs us
        else in1d_sort_path_invert vs us)))"

text \<open>\<open>a[mask] = x\<close> for a boolean mask as long as \<open>a\<close>.\<close>

definition mask_assign :: "int list \<Rightarrow> bool list \<Rightarrow> int \<Rightarrow> int list" where
  "mask_assign a msk x = map2 (\<lambda>y m. if m then x else y) a msk"

text \<open>\<open>np.cumsum\<close>: the running sums of a list.\<close>

fun cumsum_from :: "int \<Rightarrow> int list \<Rightarrow> int list" where
  "cumsum_from acc [] = []"
| "cumsum_from acc (x # xs) = (acc + x) # cumsum_from (acc + x) xs"

definition cumsum :: "int list \<Rightarrow> int list" where
  "cumsum xs = cumsum_from 0 xs"

section \<open>Errors\<close>

text \<open>
  The exceptions that dataset.py raises itself or lets through from pandas, numpy and
  the dict of vocabularies:
  \<^item> \<open>KeyError a\<close>: a Python \<open>KeyError\<close> with the argument \<open>a\<close>. \<open>_check_col_names\<close>
    raises it with a message, pandas raises it for \<open>data[c]\<close> with the missing label
    \<open>c\<close> and for \<open>data[[c1, ...]]\<close> with a message made of the missing labels, and the
    dict \<open>sparse_unique_vals\<close> raises it with the missing key;
  \<^item> \<open>SubclassNameError\<close>: the \<open>NameError\<close> of \<open>_check_subclass\<close>;
  \<^item> \<open>InvalidModeError\<close>: the \<open>ValueError\<close> of \<open>_sparse_indices\<close>;
  \<^item> \<open>UnboundLocalError\<close>: \<open>unique_values\<close> read in \<open>_get_feature_offset\<close> when
    neither branch has assigned it;
  \<^item> \<open>BroadcastError\<close>: the \<open>ValueError\<close> of numpy for an assignment between
    arrays whose shapes do not agree;
  \<^item> \<open>HelperError m\<close>: an exception raised by a helper that lives outside dataset.py.
\<close>

datatype key_arg =
    Message string
  | Label string
  | Labels "string list"

datatype error =
    KeyError key_arg
  | SubclassNameError
  | InvalidModeError
  | UnboundLocalError
  | BroadcastError
  | HelperError string

text \<open>The message of the \<open>KeyError\<close> that \<open>_check_col_names\<close> raises.\<close>

definition schema_message :: string where
  "schema_message =
     ''data must contain '' @ [CHR 0x22] @ ''user'' @ [CHR 0x22] @ '', ''
       @ [CHR 0x22] @ ''item'' @ [CHR 0x22] @ '', ''
       @ [CHR 0x22] @ ''label'' @ [CHR 0x22] @ '' column names''"

section \<open>The encoder of one column\<close>

text \<open>\<open>Dataset.check_unknown(values, uniques)\<close>.\<close>

definition check_unknown :: "int list \<Rightarrow> int list \<Rightarrow> int list \<times> bool list" where
  "check_unknown vs uniques = (setdiff1d vs uniques, in1d_invert vs uniques)"

text \<open>\<open>Dataset._sparse_indices(values, unique, mode)\<close>.\<close>

definition sparse_indices :: "int list \<Rightarrow> int list \<Rightarrow> string \<Rightarrow> error + int list" where
  "sparse_indices vs unique mode =
     (if mode = ''test'' then
        (case check_unknown vs unique of
           (diff, not_in_mask) \<Rightarrow>
             Inr (mask_assign (searchsorted unique vs) not_in_mask (int (length unique))))
      else if mode = ''train'' then Inr (searchsorted unique vs)
      else Inl InvalidModeError)"

section \<open>Classes, class state and tables\<close>

text \<open>
  The three classes of dataset.py. \<open>_get_feature_offset\<close> selects its branch from
  \<open>cls.__name__.lower()\<close>, so the class names and \<open>str.lower\<close>, \<open>str.endswith\<close>
  are part of the model.
\<close>

datatype cls = Dataset | DatasetPure | DatasetFeat

fun cls_name :: "cls \<Rightarrow> string" where
  "cls_name Dataset = ''Dataset''"
| "cls_name DatasetPure = ''DatasetPure''"
| "cls_name DatasetFeat = ''DatasetFeat''"

text \<open>\<open>issubclass(cls, Dataset)\<close>: every class of the file is \<open>Dataset\<close> or derives from it.\<close>

fun issubclass_Dataset :: "cls \<Rightarrow> bool" where
  "issubclass_Dataset Dataset = True"
| "issubclass_Dataset DatasetPure = True"
| "issubclass_Dataset DatasetFeat = True"

definition lower_char :: "char \<Rightarrow> char" where
  "lower_char c =
     (if 65 \<le> (of_char c :: nat) \<and> (of_char c :: nat) \<le> 90
      then char_of ((of_char c :: nat) + 32) else c)"

definition lower :: "string \<Rightarrow> string" where
  "lower s = map lower_char s"

definition endswith :: "string \<Rightarrow> string \<Rightarrow> bool" where
  "endswith s suf = (length suf \<le> length s \<and> drop (length s - length suf) s = suf)"

text \<open>
  The class attributes \<open>sparse_unique_vals\<close> (a dict that every class shares and that is
  updated in place), \<open>user_indices\<close> and \<open>item_indices\<close> (\<open>None\<close> until assigned), as
  the class that runs a method sees them. Every method below reads and writes them
  through the one \<open>cls\<close> it is called on.
\<close>

record state =
  sparse_unique_vals :: "string \<rightharpoonup> int list"
  user_indices :: "int list option"
  item_indices :: "int list option"

text \<open>
  A pandas DataFrame: \<open>len(data)\<close> and the named columns in their order. In a
  DataFrame the column names used here are distinct and every column has \<open>len(data)\<close>
  entries (\<open>wf_frame\<close>).
\<close>

record frame =
  n_rows :: nat
  cols :: "(string \<times> int list) list"

definition columns :: "frame \<Rightarrow> string list" where
  "columns data = map fst (cols data)"

definition wf_frame :: "frame \<Rightarrow> bool" where
  "wf_frame data =
     (distinct (columns data) \<and> list_all (\<lambda>cv. length (snd cv) = n_rows data) (cols data))"

text \<open>\<open>data[col]\<close> for one column name.\<close>

definition getitem :: "frame \<Rightarrow> string \<Rightarrow> error + int list" where
  "getitem data col =
     (case map_of (cols data) col of
        None \<Rightarrow> Inl (KeyError (Label col))
      | Some v \<Rightarrow> Inr v)"

text \<open>
  \<open>data[[c1, ..., ck]]\<close> for a list of column names: the sub-table of these columns.
  pandas looks all labels up first and raises one \<open>KeyError\<close> for the labels the table
  does not have.
\<close>

fun select_cols :: "frame \<Rightarrow> string list \<Rightarrow> error + (string \<times> int list) list" where
  "select_cols data [] = Inr []"
| "select_cols data (c # cs) =
     (case getitem data c of
        Inl e \<Rightarrow> Inl e
      | Inr v \<Rightarrow>
          (case select_cols data cs of
             Inl e \<Rightarrow> Inl e
           | Inr sel \<Rightarrow> Inr ((c, v) # sel)))"

definition getitems :: "frame \<Rightarrow> string list \<Rightarrow> error + frame" where
  "getitems data cs =
     (if filter (\<lambda>c. c \<notin> set (columns data)) cs \<noteq> []
      then Inl (KeyError (Labels (filter (\<lambda>c. c \<notin> set (columns data)) cs)))
      else (case select_cols data cs of
              Inl e \<Rightarrow> Inl e
            | Inr sel \<Rightarrow> Inr \<lparr>n_rows = n_rows data, cols = sel\<rparr>))"

text \<open>\<open>DataFrame.to_numpy()\<close>: the table as a list of rows.\<close>

definition to_numpy :: "frame \<Rightarrow> int list list" where
  "to_numpy data = map (\<lambda>r. map (\<lambda>cv. snd cv ! r) (cols data)) [0..<n_rows data]"

section \<open>The methods of \<open>Dataset\<close>\<close>

text \<open>\<open>Dataset._check_col_names(data)\<close>.\<close>

definition check_col_names :: "frame \<Rightarrow> error + unit" where
  "check_col_names data =
     (if \<not> (''user'' \<in> set (columns data) \<and> ''item'' \<in> set (columns data)
             \<and> ''label'' \<in> set (columns data))
      then Inl (KeyError (Message schema_message)) else Inr ())"

text \<open>\<open>Dataset._check_subclass()\<close>.\<close>

definition check_subclass :: "cls \<Rightarrow> error + unit" where
  "check_subclass c = (if \<not> issubclass_Dataset c then Inl SubclassNameError else Inr ())"

text \<open>
  \<open>Dataset._set_sparse_unique_vals(train_data, sparse_col)\<close>: the loop stores one
  vocabulary per column; a column that the table does not have stops it, and the
  entries stored before stay.
\<close>

fun set_sparse_unique_vals :: "state \<Rightarrow> frame \<Rightarrow> string list \<Rightarrow> (error + unit) \<times> state" where
  "set_sparse_unique_vals s train_data [] = (Inr (), s)"
| "set_sparse_unique_vals s train_data (col # rest) =
     (case getitem train_data col of
        Inl e \<Rightarrow> (Inl e, s)
      | Inr v \<Rightarrow>
          set_sparse_unique_vals
            (s\<lparr>sparse_unique_vals := (sparse_unique_vals s)(col \<mapsto> np_unique v)\<rparr>)
            train_data rest)"

text \<open>
  The list comprehension \<open>[len(cls.sparse_unique_vals[col]) + k for col in sparse_col]\<close>
  of \<open>_get_feature_offset\<close>, with \<open>k = 0\<close> in the first branch and \<open>k = 1\<close> in the
  second.
\<close>

fun unique_values_len :: "int \<Rightarrow> (string \<rightharpoonup> int list) \<Rightarrow> string list \<Rightarrow> error + int list" where
  "unique_values_len k reg [] = Inr []"
| "unique_values_len k reg (col # rest) =
     (case reg col of
        None \<Rightarrow> Inl (KeyError (Label col))
      | Some u \<Rightarrow>
          (case unique_values_len k reg rest of
             Inl e \<Rightarrow> Inl e
           | Inr ls \<Rightarrow> Inr ((int (length u) + k) # ls)))"

text \<open>\<open>Dataset._get_feature_offset(sparse_col)\<close>, called on the class \<open>c\<close>.\<close>

definition get_feature_offset :: "cls \<Rightarrow> state \<Rightarrow> string list \<Rightarrow> error + int list" where
  "get_feature_offset c s sparse_col =
     (if endswith (lower (cls_name c)) ''pure'' then
        (case unique_values_len 0 (sparse_unique_vals s) sparse_col of
           Inl e \<Rightarrow> Inl e
         | Inr unique_values \<Rightarrow> Inr (cumsum (0 # unique_values)))
      else if endswith (lower (cls_name c)) ''feat'' then
        (case unique_values_len 1 (sparse_unique_vals s) sparse_col of
           Inl e \<Rightarrow> Inl e
         | Inr unique_values \<Rightarrow> Inr (cumsum (0 # unique_values)))
      else Inl UnboundLocalError)"

text \<open>
  The first two branches of the loop body of \<open>_get_sparse_indices_matrix\<close>: the
  encoding of the column \<open>user\<close> (else of the column \<open>item\<close>) is stored in the class
  attribute.
\<close>

definition store_user_item ::
  "state \<Rightarrow> string \<Rightarrow> int list \<Rightarrow> int list \<Rightarrow> string \<Rightarrow> (error + unit) \<times> state" where
  "store_user_item s col col_values unique_values mode =
     (if col = ''user'' then
        (case sparse_indices col_values unique_values mode of
           Inl e \<Rightarrow> (Inl e, s)
         | Inr ix \<Rightarrow> (Inr (), s\<lparr>user_indices := Some ix\<rparr>))
      else if col = ''item'' then
        (case sparse_indices col_values unique_values mode of
           Inl e \<Rightarrow> (Inl e, s)
         | Inr ix \<Rightarrow> (Inr (), s\<lparr>item_indices := Some ix\<rparr>))
      else (Inr (), s))"

text \<open>
  \<open>sparse_indices[:, i] = column\<close>: numpy assigns entry by entry when the column has as
  many entries as the matrix has rows, repeats a column of one entry, and raises
  otherwise.
\<close>

definition set_column :: "int list list \<Rightarrow> nat \<Rightarrow> int list \<Rightarrow> error + int list list" where
  "set_column M i column =
     (if length column = length M then Inr (map2 (\<lambda>row x. row[i := x]) M column)
      else if length column = 1 then Inr (map (\<lambda>row. row[i := hd column]) M)
      else Inl BroadcastError)"

text \<open>The loop \<open>for i, col in enumerate(sparse_col)\<close> of \<open>_get_sparse_indices_matrix\<close>.\<close>

fun encode_columns ::
  "state \<Rightarrow> frame \<Rightarrow> string \<Rightarrow> (nat \<times> string) list \<Rightarrow> int list list
     \<Rightarrow> (error + int list list) \<times> state" where
  "encode_columns s data mode [] M = (Inr M, s)"
| "encode_columns s data mode ((i, col) # rest) M =
     (case getitem data col of
        Inl e \<Rightarrow> (Inl e, s)
      | Inr col_values \<Rightarrow>
          (case sparse_unique_vals s col of
             None \<Rightarrow> (Inl (KeyError (Label col)), s)
           | Some unique_values \<Rightarrow>
               (case store_user_item s col col_values unique_values mode of
                  (Inl e, s1) \<Rightarrow> (Inl e, s1)
                | (Inr u, s1) \<Rightarrow>
                    (case sparse_indices col_values unique_values mode of
                       Inl e \<Rightarrow> (Inl e, s1)
                     | Inr column \<Rightarrow>
                         (case set_column M i column of
                            Inl e \<Rightarrow> (Inl e, s1)
                          | Inr M1 \<Rightarrow> encode_columns s1 data mode rest M1)))))"

text \<open>\<open>sparse_indices + feature_offset[:-1]\<close>: the offsets are added to every row.\<close>

definition add_offsets :: "int list list \<Rightarrow> int list \<Rightarrow> int list list" where
  "add_offsets M offs = map (\<lambda>row. map2 (+) row offs) M"

text \<open>
  \<open>Dataset._get_sparse_indices_matrix(data, sparse_col, mode)\<close>, called on the class \<open>c\<close>.
  The matrix starts as \<open>np.zeros((n_samples, n_features), dtype=np.int)\<close>, for a numpy
  that still has the alias \<open>np.int\<close>; its entries are 64 bit integers, far from
  overflow for index values, and are unbounded integers here.
\<close>

definition get_sparse_indices_matrix ::
  "cls \<Rightarrow> state \<Rightarrow> frame \<Rightarrow> string list \<Rightarrow> string \<Rightarrow> (error + int list list) \<times> state" where
  "get_sparse_indices_matrix c s data sparse_col mode =
     (case encode_columns s data mode (enumerate 0 sparse_col)
             (replicate (n_rows data) (replicate (length sparse_col) 0)) of
        (Inl e, s1) \<Rightarrow> (Inl e, s1)
      | (Inr M, s1) \<Rightarrow>
          (case get_feature_offset c s1 sparse_col of
             Inl e \<Rightarrow> (Inl e, s1)
           | Inr feature_offset \<Rightarrow> (Inr (add_offsets M (butlast feature_offset)), s1)))"

text \<open>
  The expression \<open>cls._sparse_indices(data[col].to_numpy(), cls.sparse_unique_vals[col], mode)\<close>
  of the loop body, for one column: the column-local indices of the column.
\<close>

definition column_indices :: "state \<Rightarrow> frame \<Rightarrow> string \<Rightarrow> string \<Rightarrow> error + int list" where
  "column_indices s data mode col =
     (case getitem data col of
        Inl e \<Rightarrow> Inl e
      | Inr col_values \<Rightarrow>
          (case sparse_unique_vals s col of
             None \<Rightarrow> Inl (KeyError (Label col))
           | Some unique_values \<Rightarrow> sparse_indices col_values unique_values mode))"

section \<open>\<open>build_trainset\<close>\<close>

text \<open>
  \<open>TransformedSet\<close> and \<open>DataInfo\<close> are classes of other modules. An object of either
  is the tuple of arguments its constructor is called with: \<open>TransformedSet\<close> with the
  user indices, the item indices, the labels and, from \<open>DatasetFeat\<close> only, the sparse
  index matrix and the dense values (\<open>None\<close> where an argument is \<open>None\<close> or not
  passed); \<open>DataInfo\<close> with the column mapping, the table restricted to \<open>user\<close>, \<open>item\<close>,
  \<open>label\<close> and the two unique item feature tables. \<open>DatasetPure.build_trainset\<close> calls
  \<open>DataInfo(...)\<close>, with the literal \<open>Ellipsis\<close> as the only argument.
\<close>

datatype 'l TransformedSet =
  TransformedSet
    (ts_user_indices: "int list option")
    (ts_item_indices: "int list option")
    (ts_labels: "'l list")
    (ts_sparse_indices: "int list list option")
    (ts_dense_values: "int list list option")

datatype ('m, 'u) DataInfo =
    DataInfo_Ellipsis
  | DataInfo 'm frame "'u option" "'u option"

text \<open>
  What dataset.py uses and does not define: the conversion of a label to \<open>np.float32\<close>,
  \<open>col_name2index\<close>, the expression \<open>list(col_name_mapping["item_sparse_col"].values())\<close>
  and \<open>construct_unique_item_feat\<close>. They are parameters; each of the three helpers
  may raise, which is the result \<open>Inl\<close> with a message.
\<close>

record ('l, 'm, 'k, 'u) helpers =
  float32 :: "int \<Rightarrow> 'l"
  col_name2index ::
    "string list \<Rightarrow> string list option \<Rightarrow> string list option \<Rightarrow> string list option
       \<Rightarrow> string + 'm"
  item_sparse_col_values :: "'m \<Rightarrow> string + 'k"
  construct_unique_item_feat ::
    "int list list \<Rightarrow> int list list option \<Rightarrow> 'k \<Rightarrow> string + ('u \<times> 'u)"

text \<open>\<open>DatasetPure.build_trainset(train_data, sparse_col)\<close>.\<close>

definition DatasetPure_build_trainset ::
  "('l, 'm, 'k, 'u) helpers \<Rightarrow> state \<Rightarrow> frame \<Rightarrow> string list
     \<Rightarrow> (error + ('l TransformedSet \<times> ('m, 'u) DataInfo)) \<times> state" where
  "DatasetPure_build_trainset h s train_data sparse_col =
     (case check_subclass DatasetPure of
        Inl e \<Rightarrow> (Inl e, s)
      | Inr u0 \<Rightarrow>
     (case check_col_names train_data of
        Inl e \<Rightarrow> (Inl e, s)
      | Inr u1 \<Rightarrow>
     (case set_sparse_unique_vals s train_data sparse_col of
        (Inl e, s1) \<Rightarrow> (Inl e, s1)
      | (Inr u2, s1) \<Rightarrow>
     (case get_sparse_indices_matrix DatasetPure s1 train_data [''user'', ''item''] ''train'' of
        (Inl e, s2) \<Rightarrow> (Inl e, s2)
      | (Inr train_sparse_indices, s2) \<Rightarrow>
     (case getitem train_data ''label'' of
        Inl e \<Rightarrow> (Inl e, s2)
      | Inr labels \<Rightarrow>
          (Inr (TransformedSet (user_indices s2) (item_indices s2)
                  (map (float32 h) labels) None None,
                DataInfo_Ellipsis), s2))))))"

text \<open>\<open>train_data[dense_col].to_numpy() if dense_col is not None else None\<close>.\<close>

definition dense_values_of :: "frame \<Rightarrow> string list option \<Rightarrow> error + int list list option" where
  "dense_values_of train_data dense_col =
     (case dense_col of
        None \<Rightarrow> Inr None
      | Some dc \<Rightarrow>
          (case getitems train_data dc of
             Inl e \<Rightarrow> Inl e
           | Inr sub \<Rightarrow> Inr (Some (to_numpy sub))))"

text \<open>The \<open>if neg: ... else: ...\<close> statement of \<open>DatasetFeat.build_trainset\<close>.\<close>

definition unique_item_feat ::
  "('l, 'm, 'k, 'u) helpers \<Rightarrow> bool \<Rightarrow> 'm \<Rightarrow> int list list \<Rightarrow> int list list option
     \<Rightarrow> error + ('u option \<times> 'u option)" where
  "unique_item_feat h neg col_name_mapping train_sparse_indices train_dense_values =
     (if neg then
        (case item_sparse_col_values h col_name_mapping of
           Inl m \<Rightarrow> Inl (HelperError m)
         | Inr item_sparse_col_indices \<Rightarrow>
             (case construct_unique_item_feat h train_sparse_indices train_dense_values
                     item_sparse_col_indices of
                Inl m \<Rightarrow> Inl (HelperError m)
              | Inr (item_sparse_unique, item_dense_unique) \<Rightarrow>
                  Inr (Some item_sparse_unique, Some item_dense_unique)))
      else Inr (None, None))"

text \<open>
  \<open>DatasetFeat.build_trainset(train_data, sparse_col, dense_col, user_col, item_col, neg)\<close>.
\<close>

definition DatasetFeat_build_trainset ::
  "('l, 'm, 'k, 'u) helpers \<Rightarrow> state \<Rightarrow> frame \<Rightarrow> string list \<Rightarrow> string list option
     \<Rightarrow> string list option \<Rightarrow> string list option \<Rightarrow> bool
     \<Rightarrow> (error + ('l TransformedSet \<times> ('m, 'u) DataInfo)) \<times> state" where
  "DatasetFeat_build_trainset h s train_data sparse_col dense_col user_col item_col neg =
     (case check_subclass DatasetFeat of
        Inl e \<Rightarrow> (Inl e, s)
      | Inr u0 \<Rightarrow>
     (case check_col_names train_data of
        Inl e \<Rightarrow> (Inl e, s)
      | Inr u1 \<Rightarrow>
     (case set_sparse_unique_vals s train_data sparse_col of
        (Inl e, s1) \<Rightarrow> (Inl e, s1)
      | (Inr u2, s1) \<Rightarrow>
     (case get_sparse_indices_matrix DatasetFeat s1 train_data sparse_col ''train'' of
        (Inl e, s2) \<Rightarrow> (Inl e, s2)
      | (Inr train_sparse_indices, s2) \<Rightarrow>
     (case dense_values_of train_data dense_col of
        Inl e \<Rightarrow> (Inl e, s2)
      | Inr train_dense_values \<Rightarrow>
     (case getitem train_data ''label'' of
        Inl e \<Rightarrow> (Inl e, s2)
      | Inr labels \<Rightarrow>
     (case col_name2index h sparse_col dense_col user_col item_col of
        Inl m \<Rightarrow> (Inl (HelperError m), s2)
      | Inr col_name_mapping \<Rightarrow>
     (case unique_item_feat h neg col_name_mapping train_sparse_indices train_dense_values of
        Inl e \<Rightarrow> (Inl e, s2)
      | Inr (item_sparse_unique, item_dense_unique) \<Rightarrow>
     (case getitems train_data [''user'', ''item'', ''label''] of
        Inl e \<Rightarrow> (Inl e, s2)
      | Inr interaction \<Rightarrow>
          (Inr (TransformedSet (user_indices s2) (item_indices s2)
                  (map (float32 h) labels) (Some train_sparse_indices) train_dense_values,
                DataInfo col_name_mapping interaction item_sparse_unique item_dense_unique),
           s2))))))))))"

section \<open>Example data\<close>

text \<open>
  The class attributes as the class body initialises them, a training table with the
  users 1, 2, 3 and the items 10, 20, and stand-ins for the helpers of other modules
  (labels stay integers, the column mapping is the list of sparse columns).
\<close>

definition initial_state :: state where
  "initial_state = \<lparr>sparse_unique_vals = Map.empty, user_indices = None, item_indices = None\<rparr>"

definition example_table :: frame where
  "example_table =
     \<lparr>n_rows = 4,
      cols = [(''user'', [2, 1, 3, 2]), (''item'', [10, 20, 10, 10]),
              (''label'', [1, 0, 1, 1]), (''genre'', [5, 5, 7, 5])]\<rparr>"

definition example_helpers :: "(int, string list, nat list, int list list) helpers" where
  "example_helpers =
     \<lparr>float32 = (\<lambda>x. x),
      col_name2index = (\<lambda>sparse_col dense_col user_col item_col. Inr sparse_col),
      item_sparse_col_values = (\<lambda>m. Inr []),
      construct_unique_item_feat = (\<lambda>sparse dense ks. Inr ([], []))\<rparr>"

section \<open>Facts about the library operations\<close>

lemma np_unique_set: "set (np_unique xs) = set xs"
  by (simp add: np_unique_def)

lemma np_unique_sorted: "sorted (np_unique xs)"
  by (simp add: np_unique_def)

lemma np_unique_distinct: "distinct (np_unique xs)"
  by (simp add: np_unique_def)

lemma np_unique_length: "length (np_unique xs) = card (set xs)"
  by (metis np_unique_distinct np_unique_set distinct_card)

lemma bsearch_unfold:
  "bsearch a v lo hi =
     (if lo < hi
      then (if a ! (lo + (hi - lo) div 2) < v
            then bsearch a v (lo + (hi - lo) div 2 + 1) hi
            else bsearch a v lo (lo + (hi - lo) div 2))
      else lo)"
  unfolding bsearch_def by (subst binsearch_loop.simps) simp

lemma binsearch_loop_bounds:
  "lo \<le> hi \<Longrightarrow> binsearch_loop a v lo hi = (bsearch a v lo hi, bsearch a v lo hi)"
proof (induction a v lo hi rule: binsearch_loop.induct)
  case (1 a v lo hi)
  show ?case
  proof (cases "lo < hi")
    case False
    with "1.prems" have "lo = hi" by simp
    then show ?thesis
      unfolding bsearch_def by (subst (1 2 3) binsearch_loop.simps) simp
  next
    case True
    show ?thesis
    proof (cases "a ! (lo + (hi - lo) div 2) < v")
      case t: True
      from True have "lo + (hi - lo) div 2 + 1 \<le> hi" by auto
      note ih = "1.IH"(1) [OF True t this]
      have e: "binsearch_loop a v lo hi = binsearch_loop a v (lo + (hi - lo) div 2 + 1) hi"
        using True t by (subst binsearch_loop.simps) simp
      then have "bsearch a v lo hi = bsearch a v (lo + (hi - lo) div 2 + 1) hi"
        by (simp only: bsearch_def)
      with e ih show ?thesis by simp
    next
      case f: False
      have "lo \<le> lo + (hi - lo) div 2" by simp
      note ih = "1.IH"(2) [OF True f this]
      have e: "binsearch_loop a v lo hi = binsearch_loop a v lo (lo + (hi - lo) div 2)"
        using True f by (subst binsearch_loop.simps) simp
      then have "bsearch a v lo hi = bsearch a v lo (lo + (hi - lo) div 2)"
        by (simp only: bsearch_def)
      with e ih show ?thesis by simp
    qed
  qed
qed

text \<open>
  The loop invariant of the binary search on a sorted array: everything left of \<open>lo\<close>
  is below \<open>v\<close>, everything from \<open>hi\<close> on is at least \<open>v\<close>.
\<close>

lemma bsearch_inv:
  "\<lbrakk>sorted a; lo \<le> hi; hi \<le> length a;
    \<forall>i<lo. a ! i < v; \<forall>i. hi \<le> i \<and> i < length a \<longrightarrow> v \<le> a ! i\<rbrakk>
   \<Longrightarrow> lo \<le> bsearch a v lo hi \<and> bsearch a v lo hi \<le> hi
       \<and> (\<forall>i<bsearch a v lo hi. a ! i < v)
       \<and> (\<forall>i. bsearch a v lo hi \<le> i \<and> i < length a \<longrightarrow> v \<le> a ! i)"
proof (induction a v lo hi rule: binsearch_loop.induct)
  case (1 a v lo hi)
  let ?mid = "lo + (hi - lo) div 2"
  show ?case
  proof (cases "lo < hi")
    case False
    then have "bsearch a v lo hi = lo"
      by (subst bsearch_unfold) simp
    with False "1.prems" show ?thesis by simp
  next
    case True
    then have mid: "lo \<le> ?mid" "?mid < hi" by auto
    show ?thesis
    proof (cases "a ! ?mid < v")
      case below: True
      have left: "\<forall>i<?mid + 1. a ! i < v"
      proof (intro allI impI)
        fix i assume "i < ?mid + 1"
        then have "i \<le> ?mid" by simp
        moreover have "?mid < length a" using mid "1.prems"(3) by linarith
        ultimately have "a ! i \<le> a ! ?mid"
          using "1.prems"(1) by (simp add: sorted_nth_mono)
        with below show "a ! i < v" by simp
      qed
      have "?mid + 1 \<le> hi" using mid by simp
      from "1.IH"(1) [OF True below "1.prems"(1) this "1.prems"(3) left "1.prems"(5)]
      have ih: "?mid + 1 \<le> bsearch a v (?mid + 1) hi \<and> bsearch a v (?mid + 1) hi \<le> hi
          \<and> (\<forall>i<bsearch a v (?mid + 1) hi. a ! i < v)
          \<and> (\<forall>i. bsearch a v (?mid + 1) hi \<le> i \<and> i < length a \<longrightarrow> v \<le> a ! i)" .
      have "bsearch a v lo hi = bsearch a v (?mid + 1) hi"
        using True below by (subst bsearch_unfold) simp
      with ih mid show ?thesis by simp
    next
      case above: False
      have right: "\<forall>i. ?mid \<le> i \<and> i < length a \<longrightarrow> v \<le> a ! i"
      proof (intro allI impI)
        fix i assume "?mid \<le> i \<and> i < length a"
        then have "a ! ?mid \<le> a ! i"
          using "1.prems"(1) by (simp add: sorted_nth_mono)
        with above show "v \<le> a ! i" by simp
      qed
      have "?mid \<le> length a" using mid "1.prems"(3) by linarith
      from "1.IH"(2) [OF True above "1.prems"(1) mid(1) this "1.prems"(4) right]
      have ih: "lo \<le> bsearch a v lo ?mid \<and> bsearch a v lo ?mid \<le> ?mid
          \<and> (\<forall>i<bsearch a v lo ?mid. a ! i < v)
          \<and> (\<forall>i. bsearch a v lo ?mid \<le> i \<and> i < length a \<longrightarrow> v \<le> a ! i)" .
      have "bsearch a v lo hi = bsearch a v lo ?mid"
        using True above by (subst bsearch_unfold) simp
      with ih mid show ?thesis by simp
    qed
  qed
qed


lemma np_unique_sorted_list: "np_unique xs = sorted_list_of_set (set xs)"
  by (simp add: np_unique_def sorted_list_of_set_sort_remdups)

lemma bsearch_full:
  assumes "sorted a"
  shows "bsearch a v 0 (length a) \<le> length a
       \<and> (\<forall>i<bsearch a v 0 (length a). a ! i < v)
       \<and> (\<forall>i. bsearch a v 0 (length a) \<le> i \<and> i < length a \<longrightarrow> v \<le> a ! i)"
  using bsearch_inv [of a 0 "length a" v] assms by simp

lemma filter_less_take:
  assumes "r \<le> length a" "\<forall>i<r. a ! i < (v::int)" "\<forall>i. r \<le> i \<and> i < length a \<longrightarrow> v \<le> a ! i"
  shows "filter (\<lambda>x. x < v) a = take r a"
proof -
  have l: "filter (\<lambda>x. x < v) (take r a) = take r a"
    using assms(1,2) by (auto simp: filter_id_conv in_set_conv_nth)
  have "\<forall>x\<in>set (drop r a). \<not> x < v"
  proof
    fix x assume "x \<in> set (drop r a)"
    then obtain k where "k < length a - r" "x = a ! (r + k)"
      by (auto simp: in_set_conv_nth)
    then have "r + k < length a" by simp
    with assms(3) have "v \<le> a ! (r + k)" by simp
    with \<open>x = a ! (r + k)\<close> show "\<not> x < v" by simp
  qed
  then have d: "filter (\<lambda>x. x < v) (drop r a) = []"
    by (simp add: filter_empty_conv)
  have "filter (\<lambda>x. x < v) a = filter (\<lambda>x. x < v) (take r a @ drop r a)" by simp
  also have "\<dots> = take r a" using l d by (simp del: append_take_drop_id)
  finally show ?thesis .
qed

lemma searchsorted1_count:
  assumes "sorted a"
  shows "searchsorted1 a v = int (length (filter (\<lambda>x. x < v) a))"
proof -
  let ?r = "bsearch a v 0 (length a)"
  from bsearch_full [OF assms, of v]
  have "filter (\<lambda>x. x < v) a = take ?r a" "?r \<le> length a"
    by (auto intro: filter_less_take)
  then show ?thesis by (simp add: searchsorted1_def)
qed

lemma searchsorted1_range: "0 \<le> searchsorted1 a v \<and> searchsorted1 a v \<le> int (length a)"
proof -
  have "bsearch a v lo hi \<le> max lo hi" for lo hi
  proof (induction a v lo hi rule: binsearch_loop.induct)
    case (1 a v lo hi)
    show ?case
    proof (cases "lo < hi")
      case False
      then have "bsearch a v lo hi = lo" by (subst bsearch_unfold) simp
      then show ?thesis by simp
    next
      case True
      show ?thesis
      proof (cases "a ! (lo + (hi - lo) div 2) < v")
        case t: True
        have "bsearch a v lo hi = bsearch a v (lo + (hi - lo) div 2 + 1) hi"
          using True t by (subst bsearch_unfold) simp
        with "1.IH"(1) [OF True t] True show ?thesis by simp
      next
        case f: False
        have "bsearch a v lo hi = bsearch a v lo (lo + (hi - lo) div 2)"
          using True f by (subst bsearch_unfold) simp
        with "1.IH"(2) [OF True f] True show ?thesis by simp
      qed
    qed
  qed
  from this [of 0 "length a"] show ?thesis by (simp add: searchsorted1_def)
qed

lemma searchsorted1_member:
  assumes "sorted a" "v \<in> set a"
  shows "searchsorted1 a v < int (length a) \<and> a ! nat (searchsorted1 a v) = v"
proof -
  let ?r = "bsearch a v 0 (length a)"
  from bsearch_full [OF assms(1), of v]
  have lt: "\<forall>i<?r. a ! i < v" and ge: "\<forall>i. ?r \<le> i \<and> i < length a \<longrightarrow> v \<le> a ! i"
    by auto
  from assms(2) obtain k where k: "k < length a" "a ! k = v"
    by (auto simp: in_set_conv_nth)
  with lt have rk: "?r \<le> k" by (meson less_irrefl not_le)
  with k have r: "?r < length a" by simp
  with ge have "v \<le> a ! ?r" by simp
  moreover have "a ! ?r \<le> a ! k" using assms(1) rk k(1) by (rule sorted_nth_mono)
  ultimately have "a ! ?r = v" using k by simp
  with r show ?thesis by (simp add: searchsorted1_def)
qed

lemma count_less_card:
  "length (filter (\<lambda>x. x < v) (np_unique xs)) = card {x \<in> set xs. x < v}"
proof -
  have "distinct (filter (\<lambda>x. x < v) (np_unique xs))"
    by (simp add: np_unique_distinct)
  then have "length (filter (\<lambda>x. x < v) (np_unique xs)) = card (set (filter (\<lambda>x. x < v) (np_unique xs)))"
    by (rule distinct_card [symmetric])
  then show ?thesis by (simp add: np_unique_set)
qed

lemma bsearch_count:
  assumes "sorted a" "lo \<le> hi" "hi \<le> length a"
    "\<forall>i<lo. a ! i < v" "\<forall>i. hi \<le> i \<and> i < length a \<longrightarrow> v \<le> a ! i"
  shows "bsearch a v lo hi = length (filter (\<lambda>x. x < v) a)"
proof -
  let ?r = "bsearch a v lo hi"
  from bsearch_inv [OF assms]
  have "filter (\<lambda>x. x < v) a = take ?r a" "?r \<le> length a"
    using assms(3) by (auto intro: filter_less_take)
  then show ?thesis by simp
qed

lemma count_split:
  assumes "sorted a"
  shows "\<forall>i<length (filter (\<lambda>x. x < v) a). a ! i < (v::int)"
    and "\<forall>i. length (filter (\<lambda>x. x < v) a) \<le> i \<and> i < length a \<longrightarrow> v \<le> a ! i"
  using bsearch_full [OF assms, of v] bsearch_count [OF assms, of 0 "length a" v] by auto

lemma searchsorted_loop_sorted:
  assumes "sorted a" "mn \<le> length a" "mx \<le> length a"
    "\<forall>i<mn. a ! i < k0" "\<forall>i. mx \<le> i \<and> i < length a \<longrightarrow> k0 \<le> a ! i"
  shows "searchsorted_loop a mn mx k0 keys = map (searchsorted1 a) keys"
  using assms(2-)
proof (induction keys arbitrary: mn mx k0)
  case Nil
  then show ?case by simp
next
  case (Cons k keys)
  define lo where "lo = (if k0 < k then mn else 0)"
  define hi where "hi = (if k0 < k then length a else if mx < length a then mx + 1 else length a)"
  define r where "r = length (filter (\<lambda>x. x < k) a)"
  have b: "lo \<le> hi" "hi \<le> length a"
    using Cons.prems(1,2) by (auto simp: lo_def hi_def)
  have l: "\<forall>i<lo. a ! i < k"
    using Cons.prems(3) by (auto simp: lo_def)
  have h: "\<forall>i. hi \<le> i \<and> i < length a \<longrightarrow> k \<le> a ! i"
  proof (intro allI impI)
    fix i assume i: "hi \<le> i \<and> i < length a"
    show "k \<le> a ! i"
    proof (cases "k0 < k")
      case True
      with i show ?thesis by (simp add: hi_def)
    next
      case False
      with i have "mx \<le> i" by (auto simp: hi_def split: if_splits)
      with i Cons.prems(4) have "k0 \<le> a ! i" by simp
      with False show ?thesis by simp
    qed
  qed
  have eq: "bsearch a k lo hi = r"
    unfolding r_def using assms(1) b l h by (rule bsearch_count)
  have run: "binsearch_loop a k lo hi = (r, r)"
    using binsearch_loop_bounds [OF b(1)] eq by simp
  have one: "searchsorted1 a k = int r"
    using bsearch_count [OF assms(1), of 0 "length a" k] by (simp add: searchsorted1_def r_def)
  have rl: "r \<le> length a" by (simp add: r_def)
  from Cons.IH [OF rl rl] count_split [OF assms(1), of k]
  have "searchsorted_loop a r r k keys = map (searchsorted1 a) keys"
    by (simp add: r_def)
  with run one show ?case
    by (simp add: lo_def [symmetric] hi_def [symmetric])
qed

lemma searchsorted_sorted:
  assumes "sorted a"
  shows "searchsorted a vs = map (searchsorted1 a) vs"
proof (cases vs)
  case Nil
  then show ?thesis by (simp add: searchsorted_def)
next
  case (Cons k keys)
  have "searchsorted_loop a 0 (length a) k vs = map (searchsorted1 a) vs"
    using assms by (rule searchsorted_loop_sorted) simp_all
  with Cons show ?thesis by (simp add: searchsorted_def)
qed

lemma length_searchsorted_loop:
  "length (searchsorted_loop a mn mx k0 keys) = length keys"
  by (induction keys arbitrary: mn mx k0) (simp_all split: prod.splits)

lemma length_searchsorted: "length (searchsorted a vs) = length vs"
  by (cases vs) (simp_all add: searchsorted_def length_searchsorted_loop del: searchsorted_loop.simps)

section \<open>The column encoder: test mode, train mode, invalid modes\<close>

text \<open>
  C2. In test mode every value that is absent from the vocabulary gets the local index
  \<open>length unique\<close>, the reserved unknown slot, and its bit of the mask returned by
  \<open>check_unknown\<close> is set; a known value keeps the index of the search, which on a
  sorted vocabulary is the one binary search for the value. The call returns for every
  input, and a column whose values are all unseen is encoded as the unknown index in
  every row.
\<close>

theorem test_encoding_unknown_slot:
  "sparse_indices vs unique ''test''
     = Inr (map2 (\<lambda>v i. if v \<in> set unique then i else int (length unique))
              vs (searchsorted unique vs))
   \<and> (sorted unique \<longrightarrow>
        sparse_indices vs unique ''test''
          = Inr (map (\<lambda>v. if v \<in> set unique then searchsorted1 unique v
                           else int (length unique)) vs))
   \<and> snd (check_unknown vs unique) = map (\<lambda>v. v \<notin> set unique) vs
   \<and> (set vs \<inter> set unique = {} \<longrightarrow>
        sparse_indices vs unique ''test'' = Inr (replicate (length vs) (int (length unique)))
        \<and> snd (check_unknown vs unique) = replicate (length vs) True)"
proof -
  have m: "length ix = length vs \<Longrightarrow>
           mask_assign ix (map (\<lambda>v. v \<notin> set unique) vs) k
             = map2 (\<lambda>v i. if v \<in> set unique then i else k) vs ix" for ix k
    by (induction vs arbitrary: ix) (auto simp: mask_assign_def length_Suc_conv)
  have enc: "sparse_indices vs unique ''test''
     = Inr (map2 (\<lambda>v i. if v \<in> set unique then i else int (length unique))
              vs (searchsorted unique vs))"
    by (simp add: sparse_indices_def check_unknown_def in1d_invert_def m length_searchsorted)
  have srt: "map2 (\<lambda>v i. if v \<in> set unique then i else int (length unique))
              vs (searchsorted unique vs)
          = map (\<lambda>v. if v \<in> set unique then searchsorted1 unique v
                           else int (length unique)) vs" if "sorted unique"
    by (simp add: searchsorted_sorted [OF that] zip_map2 map_zip_map2 zip_same_conv_map)
  have msk: "snd (check_unknown vs unique) = map (\<lambda>v. v \<notin> set unique) vs"
    by (simp add: check_unknown_def in1d_invert_def)
  have all: "map2 (\<lambda>v i. if v \<in> set unique then i else k) vs ix = replicate (length vs) k
        \<and> map (\<lambda>v. v \<notin> set unique) vs = replicate (length vs) True"
    if "set vs \<inter> set unique = {}" "length ix = length vs" for ix k
    using that by (induction vs arbitrary: ix) (auto simp: length_Suc_conv)
  from enc srt msk all [OF _ length_searchsorted] show ?thesis by simp
qed

theorem test_encoding_unknown_slot_witness:
  "set [7, 9] \<inter> set [1, 2, 3 :: int] = {}
   \<and> sparse_indices [7, 9] [1, 2, 3] ''test'' = Inr [3, 3]
   \<and> snd (check_unknown [7, 9] [1, 2, 3]) = [True, True]"
proof -
  have h: "set [7, 9] \<inter> set [1, 2, 3 :: int] = {}" by simp
  from test_encoding_unknown_slot [of "[7, 9]" "[1, 2, 3]"] h
  have "sparse_indices [7, 9] [1, 2, 3] ''test''
          = Inr (replicate (length [7, 9 :: int]) (int (length [1, 2, 3 :: int])))"
       "snd (check_unknown [7, 9] [1, 2, 3]) = replicate (length [7, 9 :: int]) True"
    by blast+
  with h show ?thesis by (simp add: numeral_2_eq_2)
qed

text \<open>
  C5, as the code has it. Train mode has no check of its own: it returns the result of
  the search for every value, and for a value that is absent from a sorted vocabulary
  this is its insertion position, the number of vocabulary entries below it. No error
  is raised.
\<close>

theorem train_encoding_never_fails:
  assumes "sorted unique"
  shows "sparse_indices vs unique ''train''
           = Inr (map (\<lambda>v. int (length (filter (\<lambda>x. x < v) unique))) vs)"
  using assms by (simp add: sparse_indices_def searchsorted_sorted searchsorted1_count)

theorem train_encoding_never_fails_witness:
  "sorted [1, 2, 3 :: int] \<and> sparse_indices [5, 0] [1, 2, 3] ''train'' = Inr [3, 0]"
proof -
  have h: "sorted [1, 2, 3 :: int]" by simp
  from train_encoding_never_fails [OF h, of "[5, 0]"] h show ?thesis by simp
qed

text \<open>
  C5, as the specification states it, fails: the value 5 is absent from the vocabulary
  \<open>[1, 2, 3]\<close>, and train mode returns the index 3 for it.
\<close>

theorem train_encoding_absent_value_counterexample:
  "5 \<notin> set [1, 2, 3 :: int] \<and> sparse_indices [5] [1, 2, 3] ''train'' = Inr [3]"
  by code_simp

text \<open>
  C6. \<open>sparse_indices\<close> raises the invalid mode error exactly for the mode strings other
  than \<open>train\<close> and \<open>test\<close>; it raises nothing else, and it has no effect before.
\<close>

theorem invalid_mode_error_iff:
  "(sparse_indices vs unique mode = Inl InvalidModeError)
     = (mode \<noteq> ''train'' \<and> mode \<noteq> ''test'')
   \<and> isl (sparse_indices vs unique mode) = (mode \<noteq> ''train'' \<and> mode \<noteq> ''test'')"
  by (auto simp: sparse_indices_def split: prod.splits)

section \<open>The offset table\<close>

lemma variant_pure: "endswith (lower ''DatasetPure'') ''pure''"
  by code_simp

lemma variant_feat:
  "\<not> endswith (lower ''DatasetFeat'') ''pure''"
  "endswith (lower ''DatasetFeat'') ''feat''"
  by code_simp+

lemma variant_base:
  "\<not> endswith (lower ''Dataset'') ''pure''"
  "\<not> endswith (lower ''Dataset'') ''feat''"
  by code_simp+

lemma unique_values_len_ok:
  "set sparse_col \<subseteq> dom reg \<Longrightarrow>
   unique_values_len k reg sparse_col
     = Inr (map (\<lambda>col. int (length (the (reg col))) + k) sparse_col)"
  by (induction sparse_col) auto


lemma unique_values_len_mono:
  "unique_values_len k reg sparse_col = Inr ls \<Longrightarrow> set sparse_col \<subseteq> dom reg"
  by (induction sparse_col arbitrary: ls) (auto split: option.splits sum.splits)

lemma length_cumsum_from: "length (cumsum_from acc xs) = length xs"
  by (induction xs arbitrary: acc) simp_all

lemma cumsum_from_nth:
  "i < length xs \<Longrightarrow> cumsum_from acc xs ! i = acc + sum_list (take (Suc i) xs)"
proof (induction xs arbitrary: acc i)
  case Nil
  then show ?case by simp
next
  case (Cons x xs)
  then show ?case by (cases i) simp_all
qed

lemma length_cumsum: "length (cumsum (0 # xs)) = Suc (length xs)"
  by (simp add: cumsum_def length_cumsum_from)

lemma cumsum_nth:
  "i \<le> length xs \<Longrightarrow> cumsum (0 # xs) ! i = sum_list (take i xs)"
  by (cases i) (simp_all add: cumsum_def cumsum_from_nth)

lemma cumsum_step:
  assumes "i < length xs"
  shows "cumsum (0 # xs) ! Suc i - cumsum (0 # xs) ! i = xs ! i"
proof -
  have "take (Suc i) xs = take i xs @ [xs ! i]"
    using assms by (simp add: take_Suc_conv_app_nth)
  then show ?thesis using assms by (simp add: cumsum_nth)
qed

lemma get_feature_offset_ok:
  assumes "c = DatasetPure \<or> c = DatasetFeat" "set sparse_col \<subseteq> dom (sparse_unique_vals s)"
  shows "get_feature_offset c s sparse_col
    = Inr (cumsum (0 # map (\<lambda>col. int (length (the (sparse_unique_vals s col)))
                               + (if c = DatasetFeat then 1 else 0)) sparse_col))"
  using assms
  by (auto simp: get_feature_offset_def variant_pure variant_feat unique_values_len_ok)

text \<open>
  C3. For the two dataset classes and every list of sparse columns that the registry
  has a vocabulary for, the offset table has one entry more than there are columns,
  starts at 0, and consecutive entries differ by the vocabulary size of the column, plus
  1 for \<open>DatasetFeat\<close> (the unknown slot) and plus 0 for \<open>DatasetPure\<close>.
\<close>

theorem offset_table_differences:
  assumes "c = DatasetPure \<or> c = DatasetFeat"
      and "set sparse_col \<subseteq> dom (sparse_unique_vals s)"
  shows "\<exists>off. get_feature_offset c s sparse_col = Inr off
           \<and> length off = length sparse_col + 1
           \<and> off ! 0 = 0
           \<and> (\<forall>i<length sparse_col.
                 off ! (i + 1) - off ! i
                   = int (length (the (sparse_unique_vals s (sparse_col ! i))))
                     + (if c = DatasetFeat then 1 else 0))"
proof -
  let ?sizes = "map (\<lambda>col. int (length (the (sparse_unique_vals s col)))
                        + (if c = DatasetFeat then 1 else 0)) sparse_col"
  have "get_feature_offset c s sparse_col = Inr (cumsum (0 # ?sizes))"
    using assms by (rule get_feature_offset_ok)
  moreover have "length (cumsum (0 # ?sizes)) = length sparse_col + 1"
    by (simp add: length_cumsum)
  moreover have "cumsum (0 # ?sizes) ! 0 = 0"
    by (simp add: cumsum_nth)
  moreover have "cumsum (0 # ?sizes) ! (i + 1) - cumsum (0 # ?sizes) ! i
      = int (length (the (sparse_unique_vals s (sparse_col ! i))))
        + (if c = DatasetFeat then 1 else 0)" if "i < length sparse_col" for i
    using that cumsum_step [of i ?sizes] by simp
  ultimately show ?thesis by blast
qed

theorem offset_table_differences_witness:
  "(DatasetFeat = DatasetPure \<or> DatasetFeat = DatasetFeat)
   \<and> set [''user'', ''item''] \<subseteq> dom (sparse_unique_vals
         \<lparr>sparse_unique_vals = [''user'' \<mapsto> [1, 2, 3], ''item'' \<mapsto> [10, 20]],
          user_indices = None, item_indices = None\<rparr>)
   \<and> get_feature_offset DatasetFeat
         \<lparr>sparse_unique_vals = [''user'' \<mapsto> [1, 2, 3], ''item'' \<mapsto> [10, 20]],
          user_indices = None, item_indices = None\<rparr> [''user'', ''item''] = Inr [0, 4, 7]
   \<and> get_feature_offset DatasetPure
         \<lparr>sparse_unique_vals = [''user'' \<mapsto> [1, 2, 3], ''item'' \<mapsto> [10, 20]],
          user_indices = None, item_indices = None\<rparr> [''user'', ''item''] = Inr [0, 3, 5]"
proof -
  let ?s = "\<lparr>sparse_unique_vals = [''user'' \<mapsto> [1, 2, 3 :: int], ''item'' \<mapsto> [10, 20]],
          user_indices = None, item_indices = None\<rparr>"
  have h1: "DatasetFeat = DatasetPure \<or> DatasetFeat = DatasetFeat" by simp
  have h2: "set [''user'', ''item''] \<subseteq> dom (sparse_unique_vals ?s)" by simp
  have v: "get_feature_offset DatasetFeat ?s [''user'', ''item''] = Inr [0, 4, 7]"
     "get_feature_offset DatasetPure ?s [''user'', ''item''] = Inr [0, 3, 5]"
    by (simp_all add: get_feature_offset_def variant_pure variant_feat cumsum_def)
  from offset_table_differences [OF h1 h2] h1 h2 v show ?thesis by simp
qed

section \<open>Tables and the vocabulary registry\<close>

lemma getitem_ok:
  "col \<in> set (columns d) \<Longrightarrow> \<exists>v. getitem d col = Inr v \<and> (col, v) \<in> set (cols d)"
  by (auto simp: getitem_def columns_def split: option.splits dest: map_of_SomeD
      simp: map_of_eq_None_iff)


lemma getitem_columns: "getitem d col = Inr v \<Longrightarrow> col \<in> set (columns d)"
  by (auto simp: getitem_def columns_def split: option.splits dest: map_of_SomeD
      intro: rev_image_eqI)

lemma getitem_length:
  "wf_frame d \<Longrightarrow> getitem d col = Inr v \<Longrightarrow> length v = n_rows d"
  by (auto simp: getitem_def wf_frame_def list_all_iff split: option.splits dest!: map_of_SomeD)

lemma set_vals_frame:
  "set_sparse_unique_vals s d sc = (R, s') \<Longrightarrow>
   user_indices s' = user_indices s \<and> item_indices s' = item_indices s"
  by (induction sc arbitrary: s) (auto split: sum.splits)


lemma set_vals_keep:
  "set_sparse_unique_vals s d sc = (R, s') \<Longrightarrow> getitem d col = Inr v \<Longrightarrow>
   sparse_unique_vals s col = Some (np_unique v) \<Longrightarrow>
   sparse_unique_vals s' col = Some (np_unique v)"
proof (induction sc arbitrary: s)
  case Nil
  then show ?case by simp
next
  case (Cons c sc)
  show ?case
  proof (cases "getitem d c")
    case (Inl e)
    with Cons.prems show ?thesis by simp
  next
    case (Inr w)
    let ?s1 = "s\<lparr>sparse_unique_vals := (sparse_unique_vals s)(c \<mapsto> np_unique w)\<rparr>"
    from Cons.prems(1) Inr have run: "set_sparse_unique_vals ?s1 d sc = (R, s')" by simp
    have "sparse_unique_vals ?s1 col = Some (np_unique v)"
      using Cons.prems(2,3) Inr by (cases "c = col") simp_all
    from Cons.IH [OF run Cons.prems(2) this] show ?thesis .
  qed
qed

lemma set_vals_ok:
  "set sc \<subseteq> set (columns d) \<Longrightarrow>
   \<exists>s'. set_sparse_unique_vals s d sc = (Inr (), s')
      \<and> (\<forall>col\<in>set sc. \<exists>v. getitem d col = Inr v \<and> sparse_unique_vals s' col = Some (np_unique v))"
proof (induction sc arbitrary: s)
  case Nil
  then show ?case by simp
next
  case (Cons c sc)
  from Cons.prems obtain v where v: "getitem d c = Inr v"
    using getitem_ok by fastforce
  let ?s1 = "s\<lparr>sparse_unique_vals := (sparse_unique_vals s)(c \<mapsto> np_unique v)\<rparr>"
  from Cons.IH [of ?s1] Cons.prems obtain s' where
    s': "set_sparse_unique_vals ?s1 d sc = (Inr (), s')"
      "\<forall>col\<in>set sc. \<exists>v. getitem d col = Inr v \<and> sparse_unique_vals s' col = Some (np_unique v)"
    by auto
  have "sparse_unique_vals s' c = Some (np_unique v)"
    using set_vals_keep [OF s'(1) v] by simp
  with v s' show ?case by auto
qed

lemma set_vals_again:
  "set_sparse_unique_vals s d sc = (R, s') \<Longrightarrow> sparse_unique_vals t = sparse_unique_vals s' \<Longrightarrow>
   \<exists>t'. set_sparse_unique_vals t d sc = (R, t')
      \<and> sparse_unique_vals t' = sparse_unique_vals t
      \<and> user_indices t' = user_indices t \<and> item_indices t' = item_indices t"
proof (induction sc arbitrary: s t)
  case Nil
  then show ?case by simp
next
  case (Cons c sc)
  show ?case
  proof (cases "getitem d c")
    case (Inl e)
    with Cons.prems show ?thesis by simp
  next
    case (Inr v)
    let ?s1 = "s\<lparr>sparse_unique_vals := (sparse_unique_vals s)(c \<mapsto> np_unique v)\<rparr>"
    let ?t1 = "t\<lparr>sparse_unique_vals := (sparse_unique_vals t)(c \<mapsto> np_unique v)\<rparr>"
    from Cons.prems(1) Inr have run: "set_sparse_unique_vals ?s1 d sc = (R, s')" by simp
    have "sparse_unique_vals s' c = Some (np_unique v)"
      using set_vals_keep [OF run Inr] by simp
    with Cons.prems(2) have "sparse_unique_vals ?t1 = sparse_unique_vals s'"
      by (auto simp: fun_upd_idem_iff)
    from Cons.IH [OF run this] obtain t' where
      "set_sparse_unique_vals ?t1 d sc = (R, t')" "sparse_unique_vals t' = sparse_unique_vals ?t1"
      "user_indices t' = user_indices ?t1" "item_indices t' = item_indices ?t1"
      by blast
    with Inr \<open>sparse_unique_vals ?t1 = sparse_unique_vals s'\<close> Cons.prems(2)
    show ?thesis by simp
  qed
qed

lemma sparse_indices_length:
  "sparse_indices vs u mode = Inr ix \<Longrightarrow> length ix = length vs"
  by (auto simp: sparse_indices_def check_unknown_def in1d_invert_def length_searchsorted
      mask_assign_def split: if_splits)

lemma sparse_indices_ok:
  "mode = ''train'' \<or> mode = ''test'' \<Longrightarrow> \<exists>ix. sparse_indices vs u mode = Inr ix"
  by (auto simp: sparse_indices_def check_unknown_def)


lemma column_indices_ok:
  assumes "mode = ''train'' \<or> mode = ''test''" "wf_frame d" "col \<in> set (columns d)"
    "col \<in> dom (sparse_unique_vals s)"
  shows "\<exists>v u ix. getitem d col = Inr v \<and> sparse_unique_vals s col = Some u
          \<and> sparse_indices v u mode = Inr ix \<and> column_indices s d mode col = Inr ix
          \<and> length ix = n_rows d"
proof -
  from assms(3) obtain v where v: "getitem d col = Inr v" using getitem_ok by blast
  from assms(4) obtain u where u: "sparse_unique_vals s col = Some u" by auto
  from assms(1) obtain ix where ix: "sparse_indices v u mode = Inr ix"
    using sparse_indices_ok by blast
  have "length ix = n_rows d"
    using sparse_indices_length [OF ix] getitem_length [OF assms(2) v] by simp
  with v u ix show ?thesis by (simp add: column_indices_def)
qed

lemma column_indices_cong:
  "sparse_unique_vals t = sparse_unique_vals s \<Longrightarrow> column_indices t d mode col = column_indices s d mode col"
  by (simp add: column_indices_def cong: sum.case_cong option.case_cong)

section \<open>The encoding loop\<close>

lemma column_indices_InrD:
  "column_indices s d mode col = Inr ix \<Longrightarrow>
   \<exists>v u. getitem d col = Inr v \<and> sparse_unique_vals s col = Some u
         \<and> sparse_indices v u mode = Inr ix"
  by (auto simp: column_indices_def split: sum.splits option.splits)

lemma store_user_item_ok:
  "sparse_indices v u mode = Inr ix \<Longrightarrow>
   store_user_item s col v u mode =
     (Inr (), if col = ''user'' then s\<lparr>user_indices := Some ix\<rparr>
              else if col = ''item'' then s\<lparr>item_indices := Some ix\<rparr> else s)"
  by (simp add: store_user_item_def)

lemma store_user_item_vocab:
  "store_user_item s col v u mode = (R, s1) \<Longrightarrow> sparse_unique_vals s1 = sparse_unique_vals s"
  by (auto simp: store_user_item_def split: if_splits sum.splits)

lemma set_column_ok:
  "length column = length M \<Longrightarrow> set_column M i column = Inr (map2 (\<lambda>row x. row[i := x]) M column)"
  by (simp add: set_column_def)

lemma encode_columns_ok:
  assumes "\<forall>col\<in>set cs. column_indices s d mode col = Inr (L col) \<and> length (L col) = length M"
      and "\<forall>row\<in>set M. n + length cs \<le> length row"
  shows "\<exists>M' s'. encode_columns s d mode (enumerate n cs) M = (Inr M', s')
      \<and> length M' = length M
      \<and> sparse_unique_vals s' = sparse_unique_vals s
      \<and> user_indices s' = (if ''user'' \<in> set cs then Some (L ''user'') else user_indices s)
      \<and> item_indices s' = (if ''item'' \<in> set cs then Some (L ''item'') else item_indices s)
      \<and> (\<forall>r<length M. length (M' ! r) = length (M ! r)
            \<and> (\<forall>j<length (M ! r). M' ! r ! j =
                  (if n \<le> j \<and> j < n + length cs then L (cs ! (j - n)) ! r else M ! r ! j)))"
  using assms
proof (induction cs arbitrary: n s M)
  case Nil
  then show ?case by simp
next
  case (Cons c cs)
  from Cons.prems(1) have c: "column_indices s d mode c = Inr (L c)" "length (L c) = length M"
    by simp_all
  from column_indices_InrD [OF c(1)] obtain v u where
    vu: "getitem d c = Inr v" "sparse_unique_vals s c = Some u" "sparse_indices v u mode = Inr (L c)"
    by blast
  define s1 where "s1 = (if c = ''user'' then s\<lparr>user_indices := Some (L c)\<rparr>
              else if c = ''item'' then s\<lparr>item_indices := Some (L c)\<rparr> else s)"
  define M1 where "M1 = map2 (\<lambda>row x. row[n := x]) M (L c)"
  have st: "store_user_item s c v u mode = (Inr (), s1)"
    unfolding s1_def by (rule store_user_item_ok [OF vu(3)])
  have sc: "set_column M n (L c) = Inr M1"
    unfolding M1_def by (rule set_column_ok [OF c(2)])
  have step: "encode_columns s d mode (enumerate n (c # cs)) M
                = encode_columns s1 d mode (enumerate (Suc n) cs) M1"
    by (simp add: vu st sc)
  have voc: "sparse_unique_vals s1 = sparse_unique_vals s"
    by (simp add: s1_def)
  have lenM1: "length M1 = length M"
    by (simp add: M1_def c(2))
  have rowM1: "M1 ! r = (M ! r)[n := L c ! r]" if "r < length M" for r
    using that c(2) by (simp add: M1_def)
  have p1: "\<forall>col\<in>set cs. column_indices s1 d mode col = Inr (L col) \<and> length (L col) = length M1"
    using Cons.prems(1) by (simp add: column_indices_cong [OF voc] lenM1)
  have p2: "\<forall>row\<in>set M1. Suc n + length cs \<le> length row"
  proof
    fix row assume "row \<in> set M1"
    then obtain r where r: "r < length M1" "row = M1 ! r" by (auto simp: in_set_conv_nth)
    then have "length row = length (M ! r)" using rowM1 lenM1 by simp
    moreover have "M ! r \<in> set M" using r lenM1 by simp
    ultimately show "Suc n + length cs \<le> length row" using Cons.prems(2) by fastforce
  qed
  from Cons.IH [OF p1 p2] obtain M' s' where
    run: "encode_columns s1 d mode (enumerate (Suc n) cs) M1 = (Inr M', s')"
    and len: "length M' = length M1"
    and v': "sparse_unique_vals s' = sparse_unique_vals s1"
    and u': "user_indices s' = (if ''user'' \<in> set cs then Some (L ''user'') else user_indices s1)"
    and i': "item_indices s' = (if ''item'' \<in> set cs then Some (L ''item'') else item_indices s1)"
    and ent: "\<forall>r<length M1. length (M' ! r) = length (M1 ! r)
            \<and> (\<forall>j<length (M1 ! r). M' ! r ! j =
                  (if Suc n \<le> j \<and> j < Suc n + length cs then L (cs ! (j - Suc n)) ! r else M1 ! r ! j))"
    by blast
  have user: "user_indices s' = (if ''user'' \<in> set (c # cs) then Some (L ''user'') else user_indices s)"
    using u' by (auto simp: s1_def)
  have item: "item_indices s' = (if ''item'' \<in> set (c # cs) then Some (L ''item'') else item_indices s)"
    using i' by (auto simp: s1_def)
  have entries: "length (M' ! r) = length (M ! r)
            \<and> (\<forall>j<length (M ! r). M' ! r ! j =
                  (if n \<le> j \<and> j < n + length (c # cs) then L ((c # cs) ! (j - n)) ! r else M ! r ! j))"
    if r: "r < length M" for r
  proof -
    from r have r1: "r < length M1" by (simp add: lenM1)
    have l: "length (M' ! r) = length (M ! r)"
      using ent r1 rowM1 [OF r] by simp
    have "M' ! r ! j = (if n \<le> j \<and> j < n + length (c # cs) then L ((c # cs) ! (j - n)) ! r else M ! r ! j)"
      if j: "j < length (M ! r)" for j
    proof -
      from j have j1: "j < length (M1 ! r)" by (simp add: rowM1 [OF r])
      with ent r1 have e: "M' ! r ! j =
          (if Suc n \<le> j \<and> j < Suc n + length cs then L (cs ! (j - Suc n)) ! r else M1 ! r ! j)"
        by blast
      show ?thesis
      proof (cases "j = n")
        case True
        with e j show ?thesis by (simp add: rowM1 [OF r])
      next
        case False
        show ?thesis
        proof (cases "Suc n \<le> j")
          case True
          then have "(c # cs) ! (j - n) = cs ! (j - Suc n)"
            by (simp add: nth_Cons')
          moreover have "M1 ! r ! j = M ! r ! j"
            using False by (simp add: rowM1 [OF r])
          ultimately show ?thesis using e True by auto
        next
          case f: False
          with False have "j < n" by simp
          with e show ?thesis by (simp add: rowM1 [OF r])
        qed
      qed
    qed
    with l show ?thesis by blast
  qed
  show ?case
    unfolding step run using len lenM1 v' voc user item entries by simp
qed

lemma column_indices_dom:
  "column_indices s d mode col = Inr ix \<Longrightarrow> col \<in> dom (sparse_unique_vals s)"
  by (auto dest: column_indices_InrD)

lemma add_offsets_nth:
  "r < length M \<Longrightarrow> j < length (M ! r) \<Longrightarrow> j < length offs \<Longrightarrow>
   length (add_offsets M offs) = length M
   \<and> add_offsets M offs ! r ! j = M ! r ! j + offs ! j"
  by (simp add: add_offsets_def)

lemma add_offsets_length:
  "length (add_offsets M offs) = length M"
  "r < length M \<Longrightarrow> length (add_offsets M offs ! r) = min (length (M ! r)) (length offs)"
  by (simp_all add: add_offsets_def)

lemma get_matrix_ok:
  assumes cls: "c = DatasetPure \<or> c = DatasetFeat"
      and cols: "\<forall>col\<in>set cs. column_indices s d mode col = Inr (L col) \<and> length (L col) = n_rows d"
  shows "\<exists>M s' off. get_sparse_indices_matrix c s d cs mode = (Inr M, s')
      \<and> get_feature_offset c s cs = Inr off
      \<and> length off = Suc (length cs)
      \<and> length M = n_rows d
      \<and> sparse_unique_vals s' = sparse_unique_vals s
      \<and> user_indices s' = (if ''user'' \<in> set cs then Some (L ''user'') else user_indices s)
      \<and> item_indices s' = (if ''item'' \<in> set cs then Some (L ''item'') else item_indices s)
      \<and> (\<forall>r<n_rows d. length (M ! r) = length cs
            \<and> (\<forall>j<length cs. M ! r ! j = L (cs ! j) ! r + off ! j))"
proof -
  let ?M0 = "replicate (n_rows d) (replicate (length cs) (0::int))"
  have a1: "\<forall>col\<in>set cs. column_indices s d mode col = Inr (L col) \<and> length (L col) = length ?M0"
    using cols by simp
  have a2: "\<forall>row\<in>set ?M0. 0 + length cs \<le> length row" by simp
  from encode_columns_ok [OF a1 a2] obtain M' s' where
    run: "encode_columns s d mode (enumerate 0 cs) ?M0 = (Inr M', s')"
    and len: "length M' = n_rows d"
    and voc: "sparse_unique_vals s' = sparse_unique_vals s"
    and usr: "user_indices s' = (if ''user'' \<in> set cs then Some (L ''user'') else user_indices s)"
    and itm: "item_indices s' = (if ''item'' \<in> set cs then Some (L ''item'') else item_indices s)"
    and ent: "\<forall>r<n_rows d. length (M' ! r) = length cs
            \<and> (\<forall>j<length cs. M' ! r ! j = L (cs ! j) ! r)"
    by auto
  have dom: "set cs \<subseteq> dom (sparse_unique_vals s)"
    using cols column_indices_dom by blast
  define off where "off = cumsum (0 # map (\<lambda>col. int (length (the (sparse_unique_vals s col)))
                               + (if c = DatasetFeat then 1 else 0)) cs)"
  have off: "get_feature_offset c s cs = Inr off"
    unfolding off_def using cls dom by (rule get_feature_offset_ok)
  have "get_feature_offset c s' cs = get_feature_offset c s cs"
    unfolding get_feature_offset_def voc ..
  with off have off': "get_feature_offset c s' cs = Inr off" by simp
  have loff: "length off = Suc (length cs)"
    by (simp add: off_def length_cumsum)
  have res: "get_sparse_indices_matrix c s d cs mode = (Inr (add_offsets M' (butlast off)), s')"
    by (simp add: get_sparse_indices_matrix_def run off')
  have "length (add_offsets M' (butlast off) ! r) = length cs
        \<and> (\<forall>j<length cs. add_offsets M' (butlast off) ! r ! j = L (cs ! j) ! r + off ! j)"
    if r: "r < n_rows d" for r
  proof -
    from r ent have lr: "length (M' ! r) = length cs" and e: "\<forall>j<length cs. M' ! r ! j = L (cs ! j) ! r"
      by auto
    have "add_offsets M' (butlast off) ! r ! j = L (cs ! j) ! r + off ! j" if j: "j < length cs" for j
    proof -
      have "add_offsets M' (butlast off) ! r ! j = M' ! r ! j + butlast off ! j"
        using add_offsets_nth [of r M' j "butlast off"] r j len lr loff by simp
      also have "butlast off ! j = off ! j"
        using j loff by (simp add: nth_butlast)
      finally show ?thesis using e j by simp
    qed
    moreover have "length (add_offsets M' (butlast off) ! r) = length cs"
      using add_offsets_length(2) [of r M' "butlast off"] r len lr loff by simp
    ultimately show ?thesis by blast
  qed
  with res off loff len voc usr itm show ?thesis
    by (simp add: add_offsets_length(1))
qed

lemma cumsum_mono:
  assumes "\<forall>x\<in>set xs. 0 \<le> x" "i \<le> j" "j \<le> length xs"
  shows "cumsum (0 # xs) ! i \<le> cumsum (0 # xs) ! j"
proof -
  have "take j xs = take i xs @ drop i (take j xs)"
    using assms(2) by (metis append_take_drop_id min.absorb_iff1 take_take)
  then have "sum_list (take j xs) = sum_list (take i xs) + sum_list (drop i (take j xs))"
    by (metis sum_list_append)
  moreover have "0 \<le> sum_list (drop i (take j xs))"
    using assms(1) by (intro sum_list_nonneg) (meson in_set_dropD in_set_takeD)
  ultimately show ?thesis using assms by (simp add: cumsum_nth)
qed

lemma offsets_props:
  assumes cls: "c = DatasetPure \<or> c = DatasetFeat"
      and dom: "set cs \<subseteq> dom (sparse_unique_vals s)"
      and off: "get_feature_offset c s cs = Inr off"
  shows "length off = Suc (length cs)"
    and "off ! 0 = 0"
    and "j < length cs \<Longrightarrow>
           off ! j + int (length (the (sparse_unique_vals s (cs ! j)))) \<le> off ! Suc j"
    and "i \<le> j \<Longrightarrow> j \<le> length cs \<Longrightarrow> off ! i \<le> off ! j"
    and "last off = off ! length cs"
proof -
  define k :: int where "k = (if c = DatasetFeat then 1 else 0)"
  define sizes where "sizes = map (\<lambda>col. int (length (the (sparse_unique_vals s col))) + k) cs"
  have k: "0 \<le> k" by (simp add: k_def)
  from get_feature_offset_ok [OF cls dom] off have eq: "off = cumsum (0 # sizes)"
    by (simp add: sizes_def k_def)
  have ls: "length sizes = length cs" by (simp add: sizes_def)
  show len: "length off = Suc (length cs)" by (simp add: eq length_cumsum ls)
  show "off ! 0 = 0" by (simp add: eq cumsum_nth)
  show "off ! j + int (length (the (sparse_unique_vals s (cs ! j)))) \<le> off ! Suc j"
    if "j < length cs"
  proof -
    from that have "off ! Suc j - off ! j = sizes ! j"
      unfolding eq by (intro cumsum_step) (simp add: ls)
    moreover have "sizes ! j = int (length (the (sparse_unique_vals s (cs ! j)))) + k"
      using that by (simp add: sizes_def)
    ultimately show ?thesis using k by simp
  qed
  have nonneg: "\<forall>x\<in>set sizes. 0 \<le> x" using k by (auto simp: sizes_def)
  show "off ! i \<le> off ! j" if "i \<le> j" "j \<le> length cs"
    unfolding eq using nonneg that(1) by (rule cumsum_mono) (simp add: ls that(2))
  from len have "off \<noteq> []" by auto
  then show "last off = off ! length cs" using len by (simp add: last_conv_nth)
qed

lemma train_index_range:
  assumes "getitem d col = Inr v" "sparse_unique_vals s col = Some (np_unique v)"
    and "r < length v"
  shows "\<exists>ix. column_indices s d ''train'' col = Inr ix \<and> length ix = length v
       \<and> 0 \<le> ix ! r \<and> ix ! r < int (length (the (sparse_unique_vals s col)))"
proof -
  have ci: "column_indices s d ''train'' col = Inr (searchsorted (np_unique v) v)"
    using assms(1,2) by (simp add: column_indices_def sparse_indices_def)
  have ss: "searchsorted (np_unique v) v = map (searchsorted1 (np_unique v)) v"
    using np_unique_sorted by (rule searchsorted_sorted)
  have "v ! r \<in> set (np_unique v)" using assms(3) by (simp add: np_unique_set)
  from searchsorted1_member [OF np_unique_sorted this] searchsorted1_range [of "np_unique v" "v ! r"]
  have "0 \<le> searchsorted (np_unique v) v ! r
        \<and> searchsorted (np_unique v) v ! r < int (length (np_unique v))"
    using assms(3) by (simp add: ss)
  with ci assms(2) show ?thesis by (simp add: ss)
qed

section \<open>The sparse index matrix\<close>

lemma feat_build_InrD:
  assumes "DatasetFeat_build_trainset h s d cs dc uc ic neg = (Inr (ts, di), s2)"
  shows "\<exists>s1 M. set_sparse_unique_vals s d cs = (Inr (), s1)
      \<and> get_sparse_indices_matrix DatasetFeat s1 d cs ''train'' = (Inr M, s2)
      \<and> ts_user_indices ts = user_indices s2 \<and> ts_item_indices ts = item_indices s2
      \<and> ts_sparse_indices ts = Some M"
  using assms unfolding DatasetFeat_build_trainset_def
  by (auto split: sum.splits prod.splits)

lemma example_table_wf: "wf_frame example_table"
  by (simp add: wf_frame_def example_table_def columns_def)

lemma example_table_columns:
  "columns example_table = [''user'', ''item'', ''label'', ''genre'']"
  by (simp add: example_table_def columns_def)

text \<open>
  C4. After the vocabulary has been built from a table, the train mode index matrix of
  that table has one row per sample and one entry per sparse column, and the entry of
  column \<open>j\<close> lies in \<open>[off ! j, off ! (j + 1))\<close> and so in \<open>[0, last off)\<close>, where
  \<open>off\<close> is the offset table.
\<close>

theorem train_matrix_within_offsets:
  assumes cls: "c = DatasetPure \<or> c = DatasetFeat"
      and wf: "wf_frame d"
      and sub: "set cs \<subseteq> set (columns d)"
      and built: "set_sparse_unique_vals s d cs = (R, s1)"
  shows "\<exists>M s2 off. get_sparse_indices_matrix c s1 d cs ''train'' = (Inr M, s2)
      \<and> get_feature_offset c s1 cs = Inr off
      \<and> length off = length cs + 1
      \<and> length M = n_rows d
      \<and> (\<forall>r<n_rows d. length (M ! r) = length cs
            \<and> (\<forall>j<length cs. off ! j \<le> M ! r ! j \<and> M ! r ! j < off ! (j + 1)
                   \<and> 0 \<le> M ! r ! j \<and> M ! r ! j < last off))"
proof -
  from set_vals_ok [OF sub, of s] built
  have voc: "\<forall>col\<in>set cs. \<exists>v. getitem d col = Inr v \<and> sparse_unique_vals s1 col = Some (np_unique v)"
    by auto
  then have dom: "set cs \<subseteq> dom (sparse_unique_vals s1)" by auto
  define L where "L col = projr (column_indices s1 d ''train'' col)" for col
  have Lc: "column_indices s1 d ''train'' col = Inr (L col) \<and> length (L col) = n_rows d
        \<and> (\<forall>r<n_rows d. 0 \<le> L col ! r
              \<and> L col ! r < int (length (the (sparse_unique_vals s1 col))))"
    if col: "col \<in> set cs" for col
  proof -
    from voc col obtain v where v: "getitem d col = Inr v"
      "sparse_unique_vals s1 col = Some (np_unique v)" by blast
    have lv: "length v = n_rows d" using getitem_length [OF wf v(1)] .
    have "0 \<le> L col ! r \<and> L col ! r < int (length (the (sparse_unique_vals s1 col)))"
      if "r < n_rows d" for r
      using train_index_range [OF v, of r] that lv by (auto simp: L_def)
    moreover have "column_indices s1 d ''train'' col = Inr (L col) \<and> length (L col) = n_rows d"
      using train_index_range [OF v, of 0] lv
      by (cases "n_rows d = 0")
        (auto simp: L_def column_indices_def v sparse_indices_def length_searchsorted)
    ultimately show ?thesis by blast
  qed
  then have cols: "\<forall>col\<in>set cs. column_indices s1 d ''train'' col = Inr (L col)
                      \<and> length (L col) = n_rows d"
    by blast
  from get_matrix_ok [OF cls cols] obtain M s2 off where
    run: "get_sparse_indices_matrix c s1 d cs ''train'' = (Inr M, s2)"
    and off: "get_feature_offset c s1 cs = Inr off"
    and lenM: "length M = n_rows d"
    and ent: "\<forall>r<n_rows d. length (M ! r) = length cs
            \<and> (\<forall>j<length cs. M ! r ! j = L (cs ! j) ! r + off ! j)"
    by blast
  note op = offsets_props [OF cls dom off]
  have "off ! j \<le> M ! r ! j \<and> M ! r ! j < off ! (j + 1) \<and> 0 \<le> M ! r ! j \<and> M ! r ! j < last off"
    if r: "r < n_rows d" and j: "j < length cs" for r j
  proof -
    from ent r j have e: "M ! r ! j = L (cs ! j) ! r + off ! j" by blast
    from j have "cs ! j \<in> set cs" by simp
    from Lc [OF this] r have b: "0 \<le> L (cs ! j) ! r"
      "L (cs ! j) ! r < int (length (the (sparse_unique_vals s1 (cs ! j))))" by auto
    have s: "off ! j + int (length (the (sparse_unique_vals s1 (cs ! j)))) \<le> off ! Suc j"
      using op(3) [OF j] .
    have z: "0 \<le> off ! j" using op(4) [of 0 j] op(2) j by simp
    have l: "off ! Suc j \<le> last off" using op(4) [of "Suc j" "length cs"] op(5) j by simp
    from e b s z l show ?thesis by simp
  qed
  with run off lenM ent op(1) show ?thesis by simp
qed

theorem train_matrix_within_offsets_witness:
  "(DatasetFeat = DatasetPure \<or> DatasetFeat = DatasetFeat)
   \<and> wf_frame example_table
   \<and> set [''genre'', ''user'', ''item''] \<subseteq> set (columns example_table)
   \<and> fst (get_sparse_indices_matrix DatasetFeat
        (snd (set_sparse_unique_vals initial_state example_table [''genre'', ''user'', ''item'']))
        example_table [''genre'', ''user'', ''item''] ''train'')
       = Inr [[0, 4, 7], [0, 3, 8], [1, 5, 7], [0, 4, 7]]
   \<and> get_feature_offset DatasetFeat
        (snd (set_sparse_unique_vals initial_state example_table [''genre'', ''user'', ''item'']))
        [''genre'', ''user'', ''item''] = Inr [0, 3, 7, 10]"
proof -
  let ?cs = "[''genre'', ''user'', ''item'']"
  have h1: "DatasetFeat = DatasetPure \<or> DatasetFeat = DatasetFeat" by simp
  have h3: "set ?cs \<subseteq> set (columns example_table)"
    by (simp add: example_table_columns)
  have h4: "set_sparse_unique_vals initial_state example_table ?cs
      = (fst (set_sparse_unique_vals initial_state example_table ?cs),
         snd (set_sparse_unique_vals initial_state example_table ?cs))"
    by simp
  have v1: "fst (get_sparse_indices_matrix DatasetFeat
        (snd (set_sparse_unique_vals initial_state example_table ?cs))
        example_table ?cs ''train'') = Inr [[0, 4, 7], [0, 3, 8], [1, 5, 7], [0, 4, 7]]"
    by code_simp
  have v2: "get_feature_offset DatasetFeat
        (snd (set_sparse_unique_vals initial_state example_table ?cs)) ?cs = Inr [0, 3, 7, 10]"
    by code_simp
  from train_matrix_within_offsets [OF h1 example_table_wf h3 h4] h1 example_table_wf h3 v1 v2
  show ?thesis by simp
qed

text \<open>
  C10. When \<open>user\<close> and \<open>item\<close> are among the sparse columns, the class attributes
  \<open>user_indices\<close> and \<open>item_indices\<close> that \<open>_get_sparse_indices_matrix\<close> stores are the
  column-local indices of the two columns, with no offset, while the entries of the
  returned matrix in a \<open>user\<close> or \<open>item\<close> column are these indices plus the offset of
  the column. \<open>DatasetFeat.build_trainset\<close> packages the two attributes and the matrix
  into the \<open>TransformedSet\<close> as they are.
\<close>

theorem user_item_indices_local:
  assumes cls: "c = DatasetPure \<or> c = DatasetFeat"
      and mode: "mode = ''train'' \<or> mode = ''test''"
      and wf: "wf_frame d"
      and sub: "set cs \<subseteq> set (columns d)"
      and dom: "set cs \<subseteq> dom (sparse_unique_vals s)"
      and ui: "''user'' \<in> set cs" "''item'' \<in> set cs"
  shows "(\<exists>M s' off U I. get_sparse_indices_matrix c s d cs mode = (Inr M, s')
      \<and> get_feature_offset c s cs = Inr off
      \<and> column_indices s d mode ''user'' = Inr U
      \<and> column_indices s d mode ''item'' = Inr I
      \<and> user_indices s' = Some U \<and> item_indices s' = Some I
      \<and> (\<forall>r<n_rows d. \<forall>j<length cs.
            (cs ! j = ''user'' \<longrightarrow> M ! r ! j = U ! r + off ! j)
          \<and> (cs ! j = ''item'' \<longrightarrow> M ! r ! j = I ! r + off ! j)))
    \<and> (\<forall>ts di s2. DatasetFeat_build_trainset h s0 d cs dc uc ic neg = (Inr (ts, di), s2) \<longrightarrow>
          (\<exists>s1 M. set_sparse_unique_vals s0 d cs = (Inr (), s1)
             \<and> get_sparse_indices_matrix DatasetFeat s1 d cs ''train'' = (Inr M, s2)
             \<and> ts_user_indices ts = user_indices s2 \<and> ts_item_indices ts = item_indices s2
             \<and> ts_sparse_indices ts = Some M))"
proof -
  define L where "L col = projr (column_indices s d mode col)" for col
  have cols: "\<forall>col\<in>set cs. column_indices s d mode col = Inr (L col) \<and> length (L col) = n_rows d"
  proof
    fix col assume "col \<in> set cs"
    with sub dom have "col \<in> set (columns d)" "col \<in> dom (sparse_unique_vals s)" by auto
    from column_indices_ok [OF mode wf this]
    show "column_indices s d mode col = Inr (L col) \<and> length (L col) = n_rows d"
      by (auto simp: L_def)
  qed
  from get_matrix_ok [OF cls cols] obtain M s' off where
    run: "get_sparse_indices_matrix c s d cs mode = (Inr M, s')"
    and off: "get_feature_offset c s cs = Inr off"
    and usr: "user_indices s' = (if ''user'' \<in> set cs then Some (L ''user'') else user_indices s)"
    and itm: "item_indices s' = (if ''item'' \<in> set cs then Some (L ''item'') else item_indices s)"
    and ent: "\<forall>r<n_rows d. length (M ! r) = length cs
            \<and> (\<forall>j<length cs. M ! r ! j = L (cs ! j) ! r + off ! j)"
    by blast
  have "column_indices s d mode ''user'' = Inr (L ''user'')"
       "column_indices s d mode ''item'' = Inr (L ''item'')"
    using cols ui by blast+
  moreover have "user_indices s' = Some (L ''user'')" "item_indices s' = Some (L ''item'')"
    using usr itm ui by simp_all
  moreover have "\<forall>r<n_rows d. \<forall>j<length cs.
            (cs ! j = ''user'' \<longrightarrow> M ! r ! j = L ''user'' ! r + off ! j)
          \<and> (cs ! j = ''item'' \<longrightarrow> M ! r ! j = L ''item'' ! r + off ! j)"
    using ent by auto
  ultimately have "\<exists>M s' off U I. get_sparse_indices_matrix c s d cs mode = (Inr M, s')
      \<and> get_feature_offset c s cs = Inr off
      \<and> column_indices s d mode ''user'' = Inr U
      \<and> column_indices s d mode ''item'' = Inr I
      \<and> user_indices s' = Some U \<and> item_indices s' = Some I
      \<and> (\<forall>r<n_rows d. \<forall>j<length cs.
            (cs ! j = ''user'' \<longrightarrow> M ! r ! j = U ! r + off ! j)
          \<and> (cs ! j = ''item'' \<longrightarrow> M ! r ! j = I ! r + off ! j))"
    using run off by blast
  then show ?thesis using feat_build_InrD [of h s0 d cs dc uc ic neg] by blast
qed

theorem user_item_indices_local_witness:
  "(DatasetFeat = DatasetPure \<or> DatasetFeat = DatasetFeat)
   \<and> wf_frame example_table
   \<and> set [''genre'', ''user'', ''item''] \<subseteq> set (columns example_table)
   \<and> set [''genre'', ''user'', ''item''] \<subseteq> dom (sparse_unique_vals
        (snd (set_sparse_unique_vals initial_state example_table [''genre'', ''user'', ''item''])))
   \<and> fst (get_sparse_indices_matrix DatasetFeat
        (snd (set_sparse_unique_vals initial_state example_table [''genre'', ''user'', ''item'']))
        example_table [''genre'', ''user'', ''item''] ''test'')
       = Inr [[0, 4, 7], [0, 3, 8], [1, 5, 7], [0, 4, 7]]
   \<and> user_indices (snd (get_sparse_indices_matrix DatasetFeat
        (snd (set_sparse_unique_vals initial_state example_table [''genre'', ''user'', ''item'']))
        example_table [''genre'', ''user'', ''item''] ''test'')) = Some [1, 0, 2, 1]
   \<and> item_indices (snd (get_sparse_indices_matrix DatasetFeat
        (snd (set_sparse_unique_vals initial_state example_table [''genre'', ''user'', ''item'']))
        example_table [''genre'', ''user'', ''item''] ''test'')) = Some [0, 1, 0, 0]
   \<and> fst (DatasetFeat_build_trainset example_helpers initial_state example_table
        [''genre'', ''user'', ''item''] None None None False)
       = Inr (TransformedSet (Some [1, 0, 2, 1]) (Some [0, 1, 0, 0]) [1, 0, 1, 1]
               (Some [[0, 4, 7], [0, 3, 8], [1, 5, 7], [0, 4, 7]]) None,
              DataInfo [''genre'', ''user'', ''item'']
                \<lparr>n_rows = 4, cols = [(''user'', [2, 1, 3, 2]), (''item'', [10, 20, 10, 10]),
                                     (''label'', [1, 0, 1, 1])]\<rparr> None None)"
proof -
  let ?cs = "[''genre'', ''user'', ''item'']"
  let ?s = "snd (set_sparse_unique_vals initial_state example_table ?cs)"
  have h1: "DatasetFeat = DatasetPure \<or> DatasetFeat = DatasetFeat" by simp
  have h2: "''test'' = ''train'' \<or> ''test'' = ''test''" by simp
  have h4: "set ?cs \<subseteq> set (columns example_table)"
    by (simp add: example_table_columns)
  have h5: "set ?cs \<subseteq> dom (sparse_unique_vals ?s)"
    by (simp add: example_table_def getitem_def)
  have h6: "''user'' \<in> set ?cs" "''item'' \<in> set ?cs" by simp_all
  have v1: "fst (get_sparse_indices_matrix DatasetFeat ?s example_table ?cs ''test'')
       = Inr [[0, 4, 7], [0, 3, 8], [1, 5, 7], [0, 4, 7]]"
    by code_simp
  have v2: "user_indices (snd (get_sparse_indices_matrix DatasetFeat ?s example_table ?cs ''test''))
       = Some [1, 0, 2, 1]"
    by code_simp
  have v3: "item_indices (snd (get_sparse_indices_matrix DatasetFeat ?s example_table ?cs ''test''))
       = Some [0, 1, 0, 0]"
    by code_simp
  have v4: "fst (DatasetFeat_build_trainset example_helpers initial_state example_table
        ?cs None None None False)
       = Inr (TransformedSet (Some [1, 0, 2, 1]) (Some [0, 1, 0, 0]) [1, 0, 1, 1]
               (Some [[0, 4, 7], [0, 3, 8], [1, 5, 7], [0, 4, 7]]) None,
              DataInfo [''genre'', ''user'', ''item'']
                \<lparr>n_rows = 4, cols = [(''user'', [2, 1, 3, 2]), (''item'', [10, 20, 10, 10]),
                                     (''label'', [1, 0, 1, 1])]\<rparr> None None)"
    by code_simp
  from user_item_indices_local [OF h1 h2 example_table_wf h4 h5 h6]
    h1 example_table_wf h4 h5 v1 v2 v3 v4
  show ?thesis by simp
qed

section \<open>Running the stateful steps again\<close>


lemma check_subclass_ok: "check_subclass DatasetPure = Inr ()" "check_subclass DatasetFeat = Inr ()"
  by (simp_all add: check_subclass_def)

lemma store_user_item_rel:
  assumes "store_user_item s col v u mode = (R, s1)"
  shows "\<exists>t1. store_user_item t col v u mode = (R, t1)
      \<and> sparse_unique_vals t1 = sparse_unique_vals t
      \<and> (user_indices t1 = user_indices s1
           \<or> user_indices s1 = user_indices s \<and> user_indices t1 = user_indices t)
      \<and> (item_indices t1 = item_indices s1
           \<or> item_indices s1 = item_indices s \<and> item_indices t1 = item_indices t)"
  using assms by (auto simp: store_user_item_def split: if_splits sum.splits)

lemma encode_columns_rel:
  assumes "encode_columns s d mode l M = (R, s')"
      and "sparse_unique_vals t = sparse_unique_vals s"
  shows "\<exists>t'. encode_columns t d mode l M = (R, t')
      \<and> sparse_unique_vals s' = sparse_unique_vals s
      \<and> sparse_unique_vals t' = sparse_unique_vals t
      \<and> (user_indices t' = user_indices s'
           \<or> user_indices s' = user_indices s \<and> user_indices t' = user_indices t)
      \<and> (item_indices t' = item_indices s'
           \<or> item_indices s' = item_indices s \<and> item_indices t' = item_indices t)"
  using assms
proof (induction l arbitrary: s t M)
  case Nil
  then show ?case by simp
next
  case (Cons p l)
  obtain i col where p: "p = (i, col)" by (cases p)
  show ?case
  proof (cases "getitem d col")
    case (Inl e)
    with Cons.prems show ?thesis by (simp add: p)
  next
    case v: (Inr v)
    show ?thesis
    proof (cases "sparse_unique_vals s col")
      case None
      with v Cons.prems show ?thesis by (simp add: p)
    next
      case u: (Some u)
      obtain Rs s1 where st: "store_user_item s col v u mode = (Rs, s1)"
        by (cases "store_user_item s col v u mode")
      from store_user_item_rel [OF st, of t] obtain t1 where
        tt: "store_user_item t col v u mode = (Rs, t1)"
        and tv: "sparse_unique_vals t1 = sparse_unique_vals t"
        and tu: "user_indices t1 = user_indices s1
           \<or> user_indices s1 = user_indices s \<and> user_indices t1 = user_indices t"
        and ti: "item_indices t1 = item_indices s1
           \<or> item_indices s1 = item_indices s \<and> item_indices t1 = item_indices t"
        by blast
      have sv: "sparse_unique_vals s1 = sparse_unique_vals s"
        using st by (rule store_user_item_vocab)
      have ut: "sparse_unique_vals t col = Some u"
        using u Cons.prems(2) by simp
      show ?thesis
      proof (cases Rs)
        case (Inl e)
        with Cons.prems(1) v u st have "R = Inl e" "s' = s1" by (simp_all add: p)
        with Inl v ut tt tv tu ti sv show ?thesis by (simp add: p)
      next
        case (Inr x)
        show ?thesis
        proof (cases "sparse_indices v u mode")
          case e: (Inl e)
          with Cons.prems(1) v u st Inr have "R = Inl e" "s' = s1" by (simp_all add: p)
          with Inr e v ut tt tv tu ti sv show ?thesis by (simp add: p)
        next
          case c: (Inr column)
          show ?thesis
          proof (cases "set_column M i column")
            case e: (Inl e)
            with Cons.prems(1) v u st Inr c have "R = Inl e" "s' = s1" by (simp_all add: p)
            with Inr c e v ut tt tv tu ti sv show ?thesis by (simp add: p)
          next
            case m: (Inr M1)
            with Cons.prems(1) v u st Inr c
            have run: "encode_columns s1 d mode l M1 = (R, s')" by (simp add: p)
            have "sparse_unique_vals t1 = sparse_unique_vals s1"
              using tv sv Cons.prems(2) by simp
            from Cons.IH [OF run this] obtain t' where
              r: "encode_columns t1 d mode l M1 = (R, t')"
              and r1: "sparse_unique_vals s' = sparse_unique_vals s1"
              and r2: "sparse_unique_vals t' = sparse_unique_vals t1"
              and r3: "user_indices t' = user_indices s'
                 \<or> user_indices s' = user_indices s1 \<and> user_indices t' = user_indices t1"
              and r4: "item_indices t' = item_indices s'
                 \<or> item_indices s' = item_indices s1 \<and> item_indices t' = item_indices t1"
              by blast
            have "encode_columns t d mode (p # l) M = (R, t')"
              using v ut tt Inr c m r by (simp add: p)
            moreover have "user_indices t' = user_indices s'
                 \<or> user_indices s' = user_indices s \<and> user_indices t' = user_indices t"
              using r3 tu by auto
            moreover have "item_indices t' = item_indices s'
                 \<or> item_indices s' = item_indices s \<and> item_indices t' = item_indices t"
              using r4 ti by auto
            ultimately show ?thesis using r1 r2 sv tv by auto
          qed
        qed
      qed
    qed
  qed
qed

lemma get_matrix_rel:
  assumes "get_sparse_indices_matrix c s d cs mode = (R, s')"
      and "sparse_unique_vals t = sparse_unique_vals s"
  shows "\<exists>t'. get_sparse_indices_matrix c t d cs mode = (R, t')
      \<and> sparse_unique_vals s' = sparse_unique_vals s
      \<and> sparse_unique_vals t' = sparse_unique_vals t
      \<and> (user_indices t' = user_indices s'
           \<or> user_indices s' = user_indices s \<and> user_indices t' = user_indices t)
      \<and> (item_indices t' = item_indices s'
           \<or> item_indices s' = item_indices s \<and> item_indices t' = item_indices t)"
proof -
  let ?M0 = "replicate (n_rows d) (replicate (length cs) (0::int))"
  obtain Re se where e: "encode_columns s d mode (enumerate 0 cs) ?M0 = (Re, se)"
    by (cases "encode_columns s d mode (enumerate 0 cs) ?M0")
  from encode_columns_rel [OF e assms(2)] obtain te where
    t: "encode_columns t d mode (enumerate 0 cs) ?M0 = (Re, te)"
    and v1: "sparse_unique_vals se = sparse_unique_vals s"
    and v2: "sparse_unique_vals te = sparse_unique_vals t"
    and u: "user_indices te = user_indices se
           \<or> user_indices se = user_indices s \<and> user_indices te = user_indices t"
    and i: "item_indices te = item_indices se
           \<or> item_indices se = item_indices s \<and> item_indices te = item_indices t"
    by blast
  have off: "get_feature_offset c te cs = get_feature_offset c se cs"
    unfolding get_feature_offset_def v1 v2 assms(2) ..
  have s': "s' = se"
    using assms(1) e by (auto simp: get_sparse_indices_matrix_def split: sum.splits)
  have "get_sparse_indices_matrix c t d cs mode = (R, te)"
    using assms(1) e t off by (auto simp: get_sparse_indices_matrix_def split: sum.splits)
  with s' v1 v2 u i show ?thesis by simp
qed

lemma state_eqI:
  "sparse_unique_vals t = sparse_unique_vals s \<Longrightarrow> user_indices t = user_indices s \<Longrightarrow>
   item_indices t = item_indices s \<Longrightarrow> t = (s :: state)"
  by simp

text \<open>The two stateful steps, run again from the state they ended in, end in it again.\<close>

lemma build_steps_again:
  assumes a: "set_sparse_unique_vals s d cs = (Inr (), s1)"
      and b: "get_sparse_indices_matrix c s1 d cs' mode = (R, s2)"
  shows "set_sparse_unique_vals s2 d cs = (Inr (), s2)
       \<and> get_sparse_indices_matrix c s2 d cs' mode = (R, s2)"
proof -
  from get_matrix_rel [OF b refl] have v21: "sparse_unique_vals s2 = sparse_unique_vals s1"
    by blast
  from set_vals_again [OF a v21] obtain t where
    t: "set_sparse_unique_vals s2 d cs = (Inr (), t)" "sparse_unique_vals t = sparse_unique_vals s2"
       "user_indices t = user_indices s2" "item_indices t = item_indices s2"
    by blast
  then have ts: "t = s2" by (intro state_eqI)
  from get_matrix_rel [OF b v21] obtain t' where
    t': "get_sparse_indices_matrix c s2 d cs' mode = (R, t')"
    "sparse_unique_vals t' = sparse_unique_vals s2"
    "user_indices t' = user_indices s2
           \<or> user_indices s2 = user_indices s1 \<and> user_indices t' = user_indices s2"
    "item_indices t' = item_indices s2
           \<or> item_indices s2 = item_indices s1 \<and> item_indices t' = item_indices s2"
    by blast
  then have "t' = s2" by (intro state_eqI) auto
  with t ts t' show ?thesis by simp
qed

lemma set_vals_failed_again:
  assumes "set_sparse_unique_vals s d cs = (R, s1)"
  shows "set_sparse_unique_vals s1 d cs = (R, s1)"
proof -
  from set_vals_again [OF assms refl] obtain t where
    t: "set_sparse_unique_vals s1 d cs = (R, t)" "sparse_unique_vals t = sparse_unique_vals s1"
       "user_indices t = user_indices s1" "item_indices t = item_indices s1"
    by blast
  then have "t = s1" by (intro state_eqI)
  with t show ?thesis by simp
qed

lemma feat_build_again:
  assumes "DatasetFeat_build_trainset h s d cs dc uc ic neg = (R, s')"
  shows "DatasetFeat_build_trainset h s' d cs dc uc ic neg = (R, s')"
proof (cases "check_col_names d")
  case (Inl e)
  with assms show ?thesis
    by (simp add: DatasetFeat_build_trainset_def check_subclass_ok)
next
  case chk: (Inr u)
  obtain Ra s1 where a: "set_sparse_unique_vals s d cs = (Ra, s1)"
    by (cases "set_sparse_unique_vals s d cs")
  show ?thesis
  proof (cases Ra)
    case (Inl e)
    with assms chk a have "R = Inl e" "s' = s1"
      by (simp_all add: DatasetFeat_build_trainset_def check_subclass_ok)
    with chk Inl set_vals_failed_again [OF a] show ?thesis
      by (simp add: DatasetFeat_build_trainset_def check_subclass_ok)
  next
    case (Inr x)
    with a have a': "set_sparse_unique_vals s d cs = (Inr (), s1)" by simp
    obtain Rb s2 where b: "get_sparse_indices_matrix DatasetFeat s1 d cs ''train'' = (Rb, s2)"
      by (cases "get_sparse_indices_matrix DatasetFeat s1 d cs ''train''")
    have "snd (DatasetFeat_build_trainset h s d cs dc uc ic neg) = s2"
      by (simp add: DatasetFeat_build_trainset_def check_subclass_ok chk a' b
          split: sum.splits prod.splits)
    with assms have s': "s' = s2" by simp
    from build_steps_again [OF a' b]
    have "DatasetFeat_build_trainset h s2 d cs dc uc ic neg
            = DatasetFeat_build_trainset h s d cs dc uc ic neg"
      by (simp add: DatasetFeat_build_trainset_def check_subclass_ok chk a' b)
    with assms s' show ?thesis by simp
  qed
qed

lemma pure_build_again:
  assumes "DatasetPure_build_trainset h s d cs = (R, s')"
  shows "DatasetPure_build_trainset h s' d cs = (R, s')"
proof (cases "check_col_names d")
  case (Inl e)
  with assms show ?thesis
    by (simp add: DatasetPure_build_trainset_def check_subclass_ok)
next
  case chk: (Inr u)
  obtain Ra s1 where a: "set_sparse_unique_vals s d cs = (Ra, s1)"
    by (cases "set_sparse_unique_vals s d cs")
  show ?thesis
  proof (cases Ra)
    case (Inl e)
    with assms chk a have "R = Inl e" "s' = s1"
      by (simp_all add: DatasetPure_build_trainset_def check_subclass_ok)
    with chk Inl set_vals_failed_again [OF a] show ?thesis
      by (simp add: DatasetPure_build_trainset_def check_subclass_ok)
  next
    case (Inr x)
    with a have a': "set_sparse_unique_vals s d cs = (Inr (), s1)" by simp
    obtain Rb s2 where
      b: "get_sparse_indices_matrix DatasetPure s1 d [''user'', ''item''] ''train'' = (Rb, s2)"
      by (cases "get_sparse_indices_matrix DatasetPure s1 d [''user'', ''item''] ''train''")
    have "snd (DatasetPure_build_trainset h s d cs) = s2"
      by (simp add: DatasetPure_build_trainset_def check_subclass_ok chk a' b
          split: sum.splits prod.splits)
    with assms have s': "s' = s2" by simp
    from build_steps_again [OF a' b]
    have "DatasetPure_build_trainset h s2 d cs = DatasetPure_build_trainset h s d cs"
      by (simp add: DatasetPure_build_trainset_def check_subclass_ok chk a' b)
    with assms s' show ?thesis by simp
  qed
qed

text \<open>
  C8. A second call of \<open>build_trainset\<close> with the same arguments, on the class state the
  first call left, returns what the first call returned (the same \<open>TransformedSet\<close> and
  \<open>DataInfo\<close>, or the same error) and leaves the class state as it is. This holds from
  every class state the first call may start in, for \<open>DatasetFeat\<close> and for
  \<open>DatasetPure\<close>, with helpers that are functions of their arguments.
\<close>

theorem build_trainset_twice:
  "(DatasetFeat_build_trainset h s d cs dc uc ic neg = (R, s')
      \<longrightarrow> DatasetFeat_build_trainset h s' d cs dc uc ic neg = (R, s'))
   \<and> (DatasetPure_build_trainset h s d cs = (Rp, sp)
      \<longrightarrow> DatasetPure_build_trainset h sp d cs = (Rp, sp))"
  using feat_build_again [of h s d cs dc uc ic neg R s'] pure_build_again [of h s d cs Rp sp]
  by blast

theorem build_trainset_twice_witness:
  "fst (DatasetFeat_build_trainset example_helpers
         (snd (DatasetFeat_build_trainset example_helpers initial_state example_table
                 [''genre'', ''user'', ''item''] (Some [''label'']) None None True))
         example_table [''genre'', ''user'', ''item''] (Some [''label'']) None None True)
     = Inr (TransformedSet (Some [1, 0, 2, 1]) (Some [0, 1, 0, 0]) [1, 0, 1, 1]
             (Some [[0, 4, 7], [0, 3, 8], [1, 5, 7], [0, 4, 7]]) (Some [[1], [0], [1], [1]]),
            DataInfo [''genre'', ''user'', ''item'']
              \<lparr>n_rows = 4, cols = [(''user'', [2, 1, 3, 2]), (''item'', [10, 20, 10, 10]),
                                   (''label'', [1, 0, 1, 1])]\<rparr> (Some []) (Some []))
   \<and> fst (DatasetPure_build_trainset example_helpers
         (snd (DatasetPure_build_trainset example_helpers initial_state example_table
                 [''user'', ''item'']))
         example_table [''user'', ''item''])
     = Inr (TransformedSet (Some [1, 0, 2, 1]) (Some [0, 1, 0, 0]) [1, 0, 1, 1] None None,
            DataInfo_Ellipsis)"
proof -
  let ?F = "DatasetFeat_build_trainset example_helpers initial_state example_table
                 [''genre'', ''user'', ''item''] (Some [''label'']) None None True"
  let ?P = "DatasetPure_build_trainset example_helpers initial_state example_table
                 [''user'', ''item'']"
  have f: "fst ?F
     = Inr (TransformedSet (Some [1, 0, 2, 1]) (Some [0, 1, 0, 0]) [1, 0, 1, 1]
             (Some [[0, 4, 7], [0, 3, 8], [1, 5, 7], [0, 4, 7]]) (Some [[1], [0], [1], [1]]),
            DataInfo [''genre'', ''user'', ''item'']
              \<lparr>n_rows = 4, cols = [(''user'', [2, 1, 3, 2]), (''item'', [10, 20, 10, 10]),
                                   (''label'', [1, 0, 1, 1])]\<rparr> (Some []) (Some []))"
    by code_simp
  have p: "fst ?P
     = Inr (TransformedSet (Some [1, 0, 2, 1]) (Some [0, 1, 0, 0]) [1, 0, 1, 1] None None,
            DataInfo_Ellipsis)"
    by code_simp
  from build_trainset_twice [of example_helpers initial_state example_table
      "[''genre'', ''user'', ''item'']" "Some [''label'']" None None True "fst ?F" "snd ?F"]
    build_trainset_twice [of example_helpers initial_state example_table
      "[''user'', ''item'']" None None None False _ _ "fst ?P" "snd ?P"]
  have "DatasetFeat_build_trainset example_helpers (snd ?F) example_table
           [''genre'', ''user'', ''item''] (Some [''label'']) None None True = (fst ?F, snd ?F)"
       "DatasetPure_build_trainset example_helpers (snd ?P) example_table [''user'', ''item'']
          = (fst ?P, snd ?P)"
    by simp_all
  with f p show ?thesis by simp
qed

section \<open>Where a KeyError comes from\<close>










lemma set_vals_success_cols:
  "set_sparse_unique_vals s d sc = (Inr u, s') \<Longrightarrow> set sc \<subseteq> set (columns d)"
  by (induction sc arbitrary: s) (auto split: sum.splits dest: getitem_columns)



section \<open>Errors of \<open>build_trainset\<close>\<close>






section \<open>The Pure variant\<close>

lemma pure_build_datainfo:
  "DatasetPure_build_trainset h s d cs = (Inr (ts, di), s') \<Longrightarrow> di = DataInfo_Ellipsis"
  unfolding DatasetPure_build_trainset_def
  by (auto split: sum.splits prod.splits)

text \<open>
  C9. The code at the scenario of the specification: the table has \<open>user\<close>, \<open>item\<close> and \<open>label\<close>
  and \<open>sparse_col\<close> is \<open>user\<close>, \<open>item\<close>. \<open>DatasetPure.build_trainset\<close> succeeds and
  returns the two index vectors and the labels, but its \<open>DataInfo\<close> is built from the
  literal \<open>...\<close> alone: it receives no column mapping, no sparse columns and no offset
  table. The offset table of the two encoded columns, with its 3 entries, is computed
  inside \<open>_get_sparse_indices_matrix\<close> and dropped with the matrix. On the same input
  \<open>DatasetFeat.build_trainset\<close> passes the mapping of the sparse columns and the
  interaction table to \<open>DataInfo\<close>.
\<close>

theorem pure_build_datainfo_is_placeholder:
  "wf_frame example_table
   \<and> ''user'' \<in> set (columns example_table) \<and> ''item'' \<in> set (columns example_table)
   \<and> ''label'' \<in> set (columns example_table)
   \<and> fst (DatasetPure_build_trainset example_helpers initial_state example_table
         [''user'', ''item''])
       = Inr (TransformedSet (Some [1, 0, 2, 1]) (Some [0, 1, 0, 0]) [1, 0, 1, 1] None None,
              DataInfo_Ellipsis)
   \<and> get_feature_offset DatasetPure
         (snd (DatasetPure_build_trainset example_helpers initial_state example_table
                 [''user'', ''item'']))
         [''user'', ''item''] = Inr [0, 3, 5]
   \<and> fst (DatasetFeat_build_trainset example_helpers initial_state example_table
         [''user'', ''item''] None None None False)
       = Inr (TransformedSet (Some [1, 0, 2, 1]) (Some [0, 1, 0, 0]) [1, 0, 1, 1]
               (Some [[1, 4], [0, 5], [2, 4], [1, 4]]) None,
              DataInfo [''user'', ''item'']
                \<lparr>n_rows = 4, cols = [(''user'', [2, 1, 3, 2]), (''item'', [10, 20, 10, 10]),
                                     (''label'', [1, 0, 1, 1])]\<rparr> None None)"
  by code_simp

section \<open>The vocabulary and train mode\<close>

lemma get_matrix_vocab:
  "get_sparse_indices_matrix c s d cs mode = (R, s') \<Longrightarrow>
   sparse_unique_vals s' = sparse_unique_vals s"
  using get_matrix_rel [of c s d cs mode R s' s] by blast

text \<open>
  C1. Let the vocabulary registry be built by \<open>_set_sparse_unique_vals\<close> from a table,
  let \<open>C\<close> be one of the sparse columns and \<open>xs\<close> its training data. Then the registry
  holds a vocabulary for \<open>C\<close>, and train mode encoding against it returns, for every
  value that occurs in \<open>xs\<close>, the 0-indexed rank of the value in the sorted set of the
  distinct training values: the number of distinct training values below it, which is
  the position of the value in the sorted vocabulary. The column itself is encoded
  that way. A run of \<open>_get_sparse_indices_matrix\<close>, in any mode and on any table,
  leaves the vocabulary of \<open>C\<close> as it is, so that encoding the same values again
  returns the same result.
\<close>

theorem train_encoding_is_rank:
  assumes built: "set_sparse_unique_vals s d cs = (Inr (), s1)"
      and col: "C \<in> set cs"
      and vals: "getitem d C = Inr xs"
      and occ: "set vs \<subseteq> set xs"
  shows "\<exists>u. sparse_unique_vals s1 C = Some u
      \<and> sparse_indices vs u ''train''
           = Inr (map (\<lambda>v. int (card {x \<in> set xs. x < v})) vs)
      \<and> (\<forall>v\<in>set vs. card {x \<in> set xs. x < v} < card (set xs)
             \<and> sorted_list_of_set (set xs) ! card {x \<in> set xs. x < v} = v)
      \<and> column_indices s1 d ''train'' C
           = Inr (map (\<lambda>v. int (card {x \<in> set xs. x < v})) xs)
      \<and> (\<forall>c' d' cs' mode' R' s2.
            get_sparse_indices_matrix c' s1 d' cs' mode' = (R', s2) \<longrightarrow>
              sparse_unique_vals s2 C = Some u
              \<and> column_indices s2 d ''train'' C = column_indices s1 d ''train'' C)"
proof -
  from set_vals_ok [OF set_vals_success_cols [OF built], of s] built col vals
  have reg: "sparse_unique_vals s1 C = Some (np_unique xs)" by auto
  have eq: "searchsorted1 (np_unique xs) v = int (card {x \<in> set xs. x < v})" for v
    by (simp add: searchsorted1_count np_unique_sorted count_less_card)
  have enc: "sparse_indices ws (np_unique xs) ''train''
           = Inr (map (\<lambda>v. int (card {x \<in> set xs. x < v})) ws)" for ws
    by (simp add: sparse_indices_def searchsorted_sorted [OF np_unique_sorted] eq)
  have rank: "card {x \<in> set xs. x < v} < card (set xs)
        \<and> sorted_list_of_set (set xs) ! card {x \<in> set xs. x < v} = v" if "v \<in> set vs" for v
  proof -
    from that occ have "v \<in> set (np_unique xs)" by (auto simp: np_unique_set)
    from searchsorted1_member [OF np_unique_sorted this]
    show ?thesis by (simp add: eq np_unique_length np_unique_sorted_list [symmetric])
  qed
  have whole: "column_indices s1 d ''train'' C
           = Inr (map (\<lambda>v. int (card {x \<in> set xs. x < v})) xs)"
    by (simp add: column_indices_def vals reg enc)
  have again: "sparse_unique_vals s2 C = Some (np_unique xs)
        \<and> column_indices s2 d ''train'' C = column_indices s1 d ''train'' C"
    if "get_sparse_indices_matrix c' s1 d' cs' mode' = (R', s2)" for c' d' cs' mode' R' s2
  proof -
    from get_matrix_vocab [OF that] have v: "sparse_unique_vals s2 = sparse_unique_vals s1" .
    from column_indices_cong [OF v] reg v show ?thesis by simp
  qed
  from reg enc rank whole again show ?thesis by blast
qed

theorem train_encoding_is_rank_witness:
  "set_sparse_unique_vals initial_state example_table [''user'', ''item'', ''genre'']
     = (Inr (), snd (set_sparse_unique_vals initial_state example_table
                       [''user'', ''item'', ''genre'']))
   \<and> ''user'' \<in> set [''user'', ''item'', ''genre'']
   \<and> getitem example_table ''user'' = Inr [2, 1, 3, 2]
   \<and> set [3, 1] \<subseteq> set [2, 1, 3, 2 :: int]
   \<and> sparse_unique_vals (snd (set_sparse_unique_vals initial_state example_table
         [''user'', ''item'', ''genre''])) ''user'' = Some [1, 2, 3]
   \<and> sparse_indices [3, 1] [1, 2, 3] ''train'' = Inr [2, 0]
   \<and> column_indices (snd (set_sparse_unique_vals initial_state example_table
         [''user'', ''item'', ''genre''])) example_table ''train'' ''user'' = Inr [1, 0, 2, 1]"
proof -
  let ?cs = "[''user'', ''item'', ''genre'']"
  let ?s1 = "snd (set_sparse_unique_vals initial_state example_table ?cs)"
  have "fst (set_sparse_unique_vals initial_state example_table ?cs) = Inr ()"
    by code_simp
  then have h1: "set_sparse_unique_vals initial_state example_table ?cs = (Inr (), ?s1)"
    by (simp add: prod_eq_iff)
  have h2: "''user'' \<in> set ?cs" by simp
  have h3: "getitem example_table ''user'' = Inr [2, 1, 3, 2]" by code_simp
  have h4: "set [3, 1] \<subseteq> set [2, 1, 3, 2 :: int]" by simp
  have r: "sparse_unique_vals ?s1 ''user'' = Some [1, 2, 3]" by code_simp
  from train_encoding_is_rank [OF h1 h2 h3 h4] obtain u where
    u: "sparse_unique_vals ?s1 ''user'' = Some u"
    "sparse_indices [3, 1] u ''train''
       = Inr (map (\<lambda>v. int (card {x \<in> set [2, 1, 3, 2 :: int]. x < v})) [3, 1])"
    "column_indices ?s1 example_table ''train'' ''user''
       = Inr (map (\<lambda>v. int (card {x \<in> set [2, 1, 3, 2 :: int]. x < v})) [2, 1, 3, 2])"
    by blast
  from u(1) r have "u = [1, 2, 3]" by simp
  moreover have c: "card {x \<in> set [2, 1, 3, 2 :: int]. x < 3} = 2"
    "card {x \<in> set [2, 1, 3, 2 :: int]. x < 2} = 1"
    "card {x \<in> set [2, 1, 3, 2 :: int]. x < 1} = 0"
    by code_simp+
  ultimately show ?thesis using h1 h2 h3 h4 r u(2,3) by simp
qed

end
